theory Spec2Isabelle
  imports Complex_Main "HOL-Library.Sublist"
begin

section \<open>Python strings\<close>

text \<open>
  A Python \<open>str\<close> is a sequence of Unicode code points. The functions embedded below
  (\<open>str.splitlines\<close>, \<open>str.strip\<close>) depend on code points beyond the range of a byte, so a
  string is a list of code points, each a natural number. ASCII literals of the source are
  written \<open>ascii ''...''\<close>.
\<close>

type_synonym pystr = "nat list"

definition ascii :: "string \<Rightarrow> pystr" where
  "ascii s = map of_char s"

definition NL :: pystr where
  "NL = [10]"

text \<open>
  \<open>str.isspace\<close> for one code point: the characters \<open>str.strip()\<close> removes when called
  without an argument.
\<close>

definition is_whitespace :: "nat \<Rightarrow> bool" where
  "is_whitespace c \<longleftrightarrow>
     c \<in> set [9, 10, 11, 12, 13, 28, 29, 30, 31, 32, 133, 160, 5760, 8232, 8233, 8239, 8287, 12288]
     \<or> (8192 \<le> c \<and> c \<le> 8202)"

text \<open>The line boundaries of \<open>str.splitlines\<close>.\<close>

definition is_linebreak :: "nat \<Rightarrow> bool" where
  "is_linebreak c \<longleftrightarrow> c \<in> set [10, 11, 12, 13, 28, 29, 30, 133, 8232, 8233]"

definition strip :: "pystr \<Rightarrow> pystr" where
  "strip s = rev (dropWhile is_whitespace (rev (dropWhile is_whitespace s)))"

definition startswith :: "pystr \<Rightarrow> pystr \<Rightarrow> bool" where
  "startswith s p = prefix p s"

definition endswith :: "pystr \<Rightarrow> pystr \<Rightarrow> bool" where
  "endswith s p = suffix p s"

text \<open>
  What \<open>splitlines\<close> skips after a line: one line boundary, where a carriage return
  directly followed by a line feed counts as a single boundary.
\<close>

fun drop_eol :: "pystr \<Rightarrow> pystr" where
  "drop_eol [] = []"
| "drop_eol [c] = []"
| "drop_eol (c # d # s) = (if c = 13 \<and> d = 10 then s else d # s)"

text \<open>
  \<open>str.splitlines()\<close>: each round takes the characters up to the next line boundary as one
  line and skips the boundary; nothing is produced for the empty remainder, so a final
  line boundary does not open another line.
\<close>

function splitlines :: "pystr \<Rightarrow> pystr list" where
  "splitlines s =
     (if s = [] then []
      else takeWhile (\<lambda>c. \<not> is_linebreak c) s
           # splitlines (drop_eol (dropWhile (\<lambda>c. \<not> is_linebreak c) s)))"
  by pat_completeness auto
termination
proof (relation "measure length")
  show "wf (measure length)" by simp
next
  fix s :: pystr
  assume ne: "s \<noteq> []"
  let ?d = "dropWhile (\<lambda>c. \<not> is_linebreak c) s"
  show "(drop_eol ?d, s) \<in> measure length"
  proof (cases "?d = []")
    case True
    then have "length (drop_eol ?d) = 0" by (simp only: drop_eol.simps list.size)
    moreover from ne have "0 < length s" by simp
    ultimately show ?thesis by (simp only: in_measure)
  next
    case False
    then have "length (drop_eol ?d) < length ?d"
      by (cases ?d rule: drop_eol.cases) auto
    also have "length ?d \<le> length s" by (rule length_dropWhile_le)
    finally show ?thesis by simp
  qed
qed

declare splitlines.simps [simp del]

text \<open>\<open>sep.join(xs)\<close>.\<close>

fun join :: "pystr \<Rightarrow> pystr list \<Rightarrow> pystr" where
  "join sep [] = []"
| "join sep [x] = x"
| "join sep (x # y # ys) = x @ sep @ join sep (y # ys)"

section \<open>The agent: filtering code blocks\<close>

text \<open>
  The test of the comprehension in \<open>_filter_code\<close>: the stripped line starts with three
  backticks (code point 96, \<open>CHR 0x60\<close>).
\<close>

definition is_fence :: "pystr \<Rightarrow> bool" where
  "is_fence line = startswith (strip line) (ascii [CHR 0x60, CHR 0x60, CHR 0x60])"

definition filter_code :: "pystr \<Rightarrow> pystr" where
  "filter_code raw_code_block =
     (let filtered_lines = filter (\<lambda>line. \<not> is_fence line) (splitlines raw_code_block);
          filtered_code_block = join NL filtered_lines
      in filtered_code_block)"

section \<open>The agent: extracting a tagged block\<close>

text \<open>
  \<open>_parse_tag\<close> splices the tag into the pattern \<open><TAG>(.*?)</TAG>\<close> without escaping it
  and searches the response with \<open>re.DOTALL\<close>. The literal parts around the tag:
\<close>

definition open_tag :: "pystr \<Rightarrow> pystr" where
  "open_tag tag = ascii ''<'' @ tag @ ascii ''>''"

definition close_tag :: "pystr \<Rightarrow> pystr" where
  "close_tag tag = ascii ''</'' @ tag @ ascii ''>''"

text \<open>
  The characters with a meaning of their own in a pattern (\<open>SPECIAL_CHARS\<close> of the
  library's parser): \<open>. \ [ { ( ) * + ? ^ $ |\<close>.
\<close>

definition re_special :: "nat \<Rightarrow> bool" where
  "re_special c \<longleftrightarrow> c \<in> set [46, 92, 91, 123, 40, 41, 42, 43, 63, 94, 36, 124]"

datatype re_error = Unbalanced_parenthesis

text \<open>
  A compiled pattern of the embedded fragment: a literal, the lazy group \<open>(.*?)\<close>, a
  literal.
\<close>

datatype compiled = Tagged pystr pystr

text \<open>
  The pattern compiler, on the patterns \<open>_parse_tag\<close> builds, for the two kinds of tag the
  embedding covers. A tag without special characters stands for itself, so the pattern is
  the two literals around the group. When the first special character of the tag is a
  closing parenthesis (code point 41), the parser has read only literals when it meets the
  parenthesis at nesting depth 0 and raises \<open>re.error\<close> (unbalanced parenthesis). Every
  other tag is outside the embedded fragment of the pattern language: \<open>None\<close>.
\<close>

definition re_compile_tagged :: "pystr \<Rightarrow> (re_error + compiled) option" where
  "re_compile_tagged tag =
     (case dropWhile (\<lambda>c. \<not> re_special c) tag of
        [] \<Rightarrow> Some (Inr (Tagged (open_tag tag) (close_tag tag)))
      | c # _ \<Rightarrow> if c = 41 then Some (Inl Unbalanced_parenthesis) else None)"

text \<open>
  The lazy group followed by the closing literal, matched at the head of the text: the
  group takes no character if the literal follows at once, else one more character (any
  character, line breaks too, under \<open>DOTALL\<close>) and tries again. The value is the text of the
  group.
\<close>

fun lazy_group :: "pystr \<Rightarrow> pystr \<Rightarrow> pystr option" where
  "lazy_group close [] = (if prefix close [] then Some [] else None)"
| "lazy_group close (c # s) =
     (if prefix close (c # s) then Some []
      else map_option ((#) c) (lazy_group close s))"

definition match_here :: "compiled \<Rightarrow> pystr \<Rightarrow> pystr option" where
  "match_here p s =
     (case p of Tagged opening closing \<Rightarrow>
        if prefix opening s then lazy_group closing (drop (length opening) s) else None)"

text \<open>\<open>re.search\<close>: the match at the leftmost position that has one; the value is group 1.\<close>

fun re_search :: "compiled \<Rightarrow> pystr \<Rightarrow> pystr option" where
  "re_search p [] = match_here p []"
| "re_search p (c # s) =
     (case match_here p (c # s) of
        Some g \<Rightarrow> Some g
      | None \<Rightarrow> re_search p s)"

text \<open>
  \<open>_parse_tag\<close>: \<open>Some (Inr text)\<close> when it returns, \<open>Some (Inl e)\<close> when compiling the pattern
  raises, \<open>None\<close> for a tag outside the embedded fragment.
\<close>

definition parse_tag :: "pystr \<Rightarrow> pystr \<Rightarrow> (re_error + pystr) option" where
  "parse_tag response tag =
     (case re_compile_tagged tag of
        None \<Rightarrow> None
      | Some (Inl e) \<Rightarrow> Some (Inl e)
      | Some (Inr p) \<Rightarrow>
          Some (Inr (case re_search p response of
                       Some group1 \<Rightarrow> strip group1
                     | None \<Rightarrow> [])))"

section \<open>The agent: handling one round\<close>

text \<open>\<open>str(n)\<close> for an integer, as an f-string prints it.\<close>

function str_nat :: "nat \<Rightarrow> pystr" where
  "str_nat n = (if n < 10 then [48 + n] else str_nat (n div 10) @ [48 + n mod 10])"
  by pat_completeness auto
termination
  by (relation "measure id") auto

declare str_nat.simps [simp del]

definition str_int :: "int \<Rightarrow> pystr" where
  "str_int i = (if i < 0 then ascii ''-'' @ str_nat (nat (- i)) else str_nat (nat i))"

text \<open>\<open>subprocess.CompletedProcess\<close>, with text output.\<close>

record completed_process =
  args :: pystr
  returncode :: int
  stdout :: pystr
  stderr :: pystr

text \<open>
  The tool is a collaborator: \<open>execute\<close> runs a command and returns the completed process,
  \<open>tutorial\<close> returns the usage text.
\<close>

record base_tool =
  execute :: "pystr \<Rightarrow> completed_process"
  tutorial :: pystr

datatype log_level = INFO | WARNING

type_synonym trial_log = "(log_level \<times> pystr) list"

definition format_bash_execution_result :: "completed_process \<Rightarrow> pystr" where
  "format_bash_execution_result process =
     ascii ''<bash>\<newline>'' @ args process @ ascii ''\<newline></bash>\<newline>''
     @ ascii ''<return code>\<newline>'' @ str_int (returncode process) @ ascii ''\<newline></return code>\<newline>''
     @ ascii ''<stdout>\<newline>'' @ stdout process @ ascii ''\<newline></stdout>\<newline>''
     @ ascii ''<stderr>\<newline>'' @ stderr process @ ascii ''\<newline></stderr>\<newline>''"

text \<open>
  \<open>_container_handle_bash_command\<close>. The prompt builder is a collaborator, taken as the
  function \<open>build\<close> from the prompt text to the prompt; the trial logger is the list of
  messages logged so far. The result is the prompt and the log.
\<close>

definition container_handle_bash_command ::
  "(pystr \<Rightarrow> 'prompt) \<Rightarrow> trial_log \<Rightarrow> int \<Rightarrow> pystr \<Rightarrow> base_tool
     \<Rightarrow> (re_error + 'prompt \<times> trial_log) option" where
  "container_handle_bash_command build logged cur_round response tool =
     (case parse_tag response (ascii ''bash'') of
        None \<Rightarrow> None
      | Some (Inl e) \<Rightarrow> Some (Inl e)
      | Some (Inr command) \<Rightarrow>
          Some (Inr
            (if command \<noteq> [] then
               (build (format_bash_execution_result (execute tool command)), logged)
             else
               (build (ascii ''No bash command received, Please follow the interaction protocols:\<newline>''
                       @ tutorial tool),
                logged @ [(WARNING, ascii ''ROUND '' @ str_int cur_round
                                    @ ascii '' No BASH command from LLM response: '' @ response)]))))"

section \<open>The orchestrator: data\<close>

text \<open>
  A Python \<open>float\<close>: a finite value (a rational number), an infinity or not-a-number.
  Comparisons with not-a-number are false; a float is truthy unless it is zero.
\<close>

datatype pyfloat = Finite rat | PosInf | NegInf | NaN

fun float_le :: "pyfloat \<Rightarrow> pyfloat \<Rightarrow> bool" where
  "float_le NaN _ = False"
| "float_le _ NaN = False"
| "float_le NegInf _ = True"
| "float_le _ PosInf = True"
| "float_le (Finite a) (Finite b) = (a \<le> b)"
| "float_le PosInf _ = False"
| "float_le _ NegInf = False"

fun float_lt :: "pyfloat \<Rightarrow> pyfloat \<Rightarrow> bool" where
  "float_lt NaN _ = False"
| "float_lt _ NaN = False"
| "float_lt (Finite a) (Finite b) = (a < b)"
| "float_lt PosInf _ = False"
| "float_lt _ NegInf = False"
| "float_lt NegInf _ = True"
| "float_lt _ PosInf = True"

fun float_truthy :: "pyfloat \<Rightarrow> bool" where
  "float_truthy (Finite a) = (a \<noteq> 0)"
| "float_truthy _ = True"

text \<open>\<open>bool(s)\<close> for an optional string: \<open>None\<close> and the empty string are falsy.\<close>

fun truthy :: "pystr option \<Rightarrow> bool" where
  "truthy None = False"
| "truthy (Some s) = (s \<noteq> [])"

text \<open>
  An exception object. The first constructors are the exceptions that the embedded code and
  its library calls raise, with their message as plain text. \<open>Exception text\<close> is any
  other instance of \<open>Exception\<close>, with the text that \<open>str(e)\<close> gives; \<open>Unprintable e\<close> is an
  instance of \<open>Exception\<close> whose \<open>__str__\<close> raises \<open>e\<close>. \<open>SystemExit\<close> and
  \<open>KeyboardInterrupt\<close> are not instances of \<open>Exception\<close>.
\<close>

datatype py_error =
  AssertionError string
| ValueError string
| OverflowError string
| TypeError string
| FileNotFoundError string
| StorageError string
| Exception pystr
| Unprintable py_error
| SystemExit
| KeyboardInterrupt

text \<open>\<open>isinstance(e, Exception)\<close>.\<close>

fun is_Exception :: "py_error \<Rightarrow> bool" where
  "is_Exception SystemExit = False"
| "is_Exception KeyboardInterrupt = False"
| "is_Exception _ = True"

text \<open>\<open>str(e)\<close>: the text, or the exception that forming the text raises.\<close>

fun str_of :: "py_error \<Rightarrow> py_error + pystr" where
  "str_of (AssertionError message) = Inr (ascii message)"
| "str_of (ValueError message) = Inr (ascii message)"
| "str_of (OverflowError message) = Inr (ascii message)"
| "str_of (TypeError message) = Inr (ascii message)"
| "str_of (FileNotFoundError message) = Inr (ascii message)"
| "str_of (StorageError message) = Inr (ascii message)"
| "str_of (Exception text) = Inr text"
| "str_of (Unprintable e) = Inl e"
| "str_of SystemExit = Inr []"
| "str_of KeyboardInterrupt = Inr []"

text \<open>
  The \<open>argparse.Namespace\<close> that \<open>parser.parse_args()\<close> returns: one field per option,
  with the types the parser gives them. The two benchmark sources have no default and are
  \<open>None\<close> when absent; \<open>context'\<close> is the field \<open>context\<close>.
\<close>

record namespace =
  num_samples :: int
  temperature :: pyfloat
  cloud_experiment_name :: pystr
  cloud_experiment_bucket :: pystr
  cloud_save_bucket :: pystr
  benchmarks_directory :: "pystr option"
  benchmark_yaml :: "pystr option"
  run_timeout :: int
  ai_binary :: pystr
  model :: pystr
  template_directory :: pystr
  work_dir :: pystr
  context' :: bool
  delay :: int

text \<open>
  Modelled from the spec: the benchmark descriptor (class \<open>Benchmark\<close> of
  \<open>experiment/benchmark.py\<close> is not among the sources). The fields are those the
  orchestrator reads; \<open>id'\<close> is the field \<open>id\<close>.
\<close>

record benchmark =
  id' :: pystr
  project :: pystr
  function_name :: pystr
  function_signature :: pystr

text \<open>
  Modelled from the spec: the aggregated outcome of one experiment (class
  \<open>AggregatedResult\<close> of \<open>run_one_experiment.py\<close> is not among the sources), with the
  scalar coverage differential and the reference to the best candidate file that
  \<open>_save_best_target\<close> reads.
\<close>

record AggregatedResult =
  max_line_coverage_diff :: pyfloat
  max_coverage_diff_sample :: pystr

text \<open>
  Class \<open>Result\<close>: the benchmark and either the aggregated result or the text of a
  failure (\<open>AggregatedResult | str\<close>).
\<close>

datatype outcome = Aggregated AggregatedResult | Failure pystr

datatype Result = Result (benchmark: benchmark) (result: outcome)

type_synonym config = "benchmark \<times> namespace"

section \<open>The orchestrator: arguments and configs\<close>

text \<open>
  \<open>parse_args\<close>, from the namespace the argument parser returned: the assertions, in the
  order of the source. \<open>isdir\<close> is \<open>os.path.isdir\<close> on the file system of the run.
\<close>

definition parse_args :: "(pystr \<Rightarrow> bool) \<Rightarrow> namespace \<Rightarrow> py_error + namespace" where
  "parse_args isdir ns =
     (if num_samples ns \<noteq> 0 \<and> \<not> num_samples ns > 0 then
        Inl (AssertionError ''--num-samples must take a positive integer.'')
      else if float_truthy (temperature ns)
              \<and> \<not> (float_le (temperature ns) (Finite 2) \<and> float_le (Finite 0) (temperature ns)) then
        Inl (AssertionError ''--temperature must be within 0 and 2.'')
      else if truthy (benchmark_yaml ns)
              \<and> \<not> (endswith (the (benchmark_yaml ns)) (ascii ''.yaml'')
                   \<or> endswith (the (benchmark_yaml ns)) (ascii ''yml'')) then
        Inl (AssertionError ''--benchmark-yaml needs to take an YAML file.'')
      else if \<not> (truthy (benchmark_yaml ns) \<noteq> truthy (benchmarks_directory ns)) then
        Inl (AssertionError
          (''One and only one of --benchmark-yaml and --benchmarks-directory is ''
           @ ''required. The former takes one benchmark YAML file, the latter ''
           @ ''takes: a directory of them.''))
      else if \<not> isdir (template_directory ns) then
        Inl (AssertionError ''--template-directory must be an existing directory.'')
      else if \<not> (cloud_experiment_name ns \<noteq> [] \<longleftrightarrow> cloud_experiment_bucket ns \<noteq> []) then
        Inl (AssertionError
          (''Cannot accept exactly one of --args.cloud-experiment-name and ''
           @ ''--args.cloud-experiment-bucket: Local experiment requires neither of ''
           @ ''them, cloud experiment needs both.''))
      else Inr ns)"

text \<open>\<open>os.path.join\<close> of two parts, on POSIX.\<close>

definition os_path_join :: "pystr \<Rightarrow> pystr \<Rightarrow> pystr" where
  "os_path_join a b =
     (if startswith b (ascii ''/'') then b
      else if a = [] \<or> endswith a (ascii ''/'') then a @ b
      else a @ ascii ''/'' @ b)"

text \<open>
  \<open>get_experiment_configs\<close>. \<open>listdir\<close> is \<open>os.listdir\<close> on the file system of the run:
  the entries of a directory, or the exception it raises (\<open>FileNotFoundError\<close> for a
  directory that does not exist). \<open>from_yaml\<close> is \<open>Benchmark.from_yaml\<close>, a collaborator
  that reads the benchmarks of one file. Without a directory \<open>os.listdir(None)\<close> lists the
  current directory and \<open>os.path.join(None, file)\<close> raises.
\<close>

definition get_experiment_configs ::
  "(pystr \<Rightarrow> py_error + pystr list) \<Rightarrow> (pystr \<Rightarrow> benchmark list) \<Rightarrow> namespace
     \<Rightarrow> py_error + config list" where
  "get_experiment_configs listdir from_yaml ns =
     (let benchmark_yamls =
        (if truthy (benchmark_yaml ns) then Inr [the (benchmark_yaml ns)]
         else
           (case listdir (case benchmarks_directory ns of None \<Rightarrow> ascii ''.'' | Some d \<Rightarrow> d) of
              Inl e \<Rightarrow> Inl e
            | Inr entries \<Rightarrow>
                (let files = filter (\<lambda>file. endswith file (ascii ''.yaml'')
                                           \<or> endswith file (ascii ''yml'')) entries
                 in case benchmarks_directory ns of
                      None \<Rightarrow>
                        if files = [] then Inr []
                        else Inl (TypeError ''expected str, bytes or os.PathLike object, not NoneType'')
                    | Some d \<Rightarrow> Inr (map (os_path_join d) files))))
      in case benchmark_yamls of
           Inl e \<Rightarrow> Inl e
         | Inr yamls \<Rightarrow>
             (let experiment_configs = concat (map from_yaml yamls)
              in Inr (map (\<lambda>config. (config, ns)) experiment_configs)))"

section \<open>The orchestrator: running the experiments\<close>

text \<open>
  \<open>run_experiments\<close>. The three calls inside the \<open>try\<close> block (\<open>WorkDirs\<close>,
  \<open>models.LLM.setup\<close>, \<open>run_one_experiment.run\<close>) are collaborators, taken together as the
  function \<open>pipeline\<close>: its value is the aggregated result returned, or the exception
  raised. The handler catches the instances of \<open>Exception\<close> only, and it forms the text of
  the exception itself (in the \<open>print\<close> and again in the f-string), so an exception that
  is no \<open>Exception\<close> and an exception raised by \<open>str(e)\<close> both leave \<open>run_experiments\<close>.
\<close>

type_synonym pipeline = "benchmark \<Rightarrow> namespace \<Rightarrow> py_error + AggregatedResult"

definition run_experiments :: "pipeline \<Rightarrow> benchmark \<Rightarrow> namespace \<Rightarrow> py_error + Result" where
  "run_experiments pipeline bench ns =
     (case pipeline bench ns of
        Inr aggregated \<Rightarrow> Inr (Result bench (Aggregated aggregated))
      | Inl e \<Rightarrow>
          if is_Exception e then
            (case str_of e of
               Inl raised_by_str \<Rightarrow> Inl raised_by_str
             | Inr text \<Rightarrow>
                 Inr (Result bench (Failure (ascii ''Exception while running experiment: '' @ text))))
          else Inl e)"

text \<open>
  The sequential branch of \<open>main\<close>: each config is run, its result appended and printed;
  an exception that leaves \<open>run_experiments\<close> ends the loop. The state is the pair of the
  results and the printed reports.
\<close>

fun run_sequentially ::
  "pipeline \<Rightarrow> config list \<Rightarrow> Result list \<times> Result list
     \<Rightarrow> py_error + Result list \<times> Result list" where
  "run_sequentially pipeline [] state = Inr state"
| "run_sequentially pipeline (config # rest) (experiment_results, printed) =
     (case run_experiments pipeline (fst config) (snd config) of
        Inl e \<Rightarrow> Inl e
      | Inr r \<Rightarrow> run_sequentially pipeline rest (experiment_results @ [r], printed @ [r]))"

text \<open>
  \<open>time.sleep(secs)\<close> for an integer: a length that does not fit the 64-bit count of
  nanoseconds raises \<open>OverflowError\<close>, a negative length raises \<open>ValueError\<close>, and any other
  length is handed to the operating system, whose sleep (the parameter \<open>os_sleep\<close>) returns
  or raises.
\<close>

definition time_sleep :: "(int \<Rightarrow> py_error option) \<Rightarrow> int \<Rightarrow> py_error option" where
  "time_sleep os_sleep secs =
     (if secs < - 9223372036 \<or> 9223372036 < secs then
        Some (OverflowError ''timestamp too large to convert to C _PyTime_t'')
      else if secs < 0 then Some (ValueError ''sleep length must be non-negative'')
      else os_sleep secs)"

text \<open>
  The worker pool. A task is the submitted config with its \<open>ApplyResult\<close>: pending until a
  worker has run it, then ready with the value or failed with the exception. The
  submission loop appends one task for each config and then sleeps.
\<close>

datatype apply_result = Pending | Ready Result | Failed py_error

type_synonym task = "config \<times> apply_result"

fun submit_all ::
  "(int \<Rightarrow> py_error option) \<Rightarrow> int \<Rightarrow> config list \<Rightarrow> task list \<Rightarrow> py_error + task list" where
  "submit_all os_sleep delay_seconds [] experiment_tasks = Inr experiment_tasks"
| "submit_all os_sleep delay_seconds (config # rest) experiment_tasks =
     (case time_sleep os_sleep delay_seconds of
        Some e \<Rightarrow> Inl e
      | None \<Rightarrow> submit_all os_sleep delay_seconds rest (experiment_tasks @ [(config, Pending)]))"

text \<open>
  A worker takes the task with index \<open>i\<close> and runs \<open>run_experiments\<close> on its config. When
  the call returns, the task becomes ready and the callback prints the result. When the
  call raises an instance of \<open>Exception\<close>, the worker stores it and the task has failed.
  Any other exception ends the worker process, and its task stays pending. An index
  without a pending task changes nothing. The order in which the workers take and finish
  the tasks is the parameter \<open>schedule\<close> of the run, a list of task indices.
\<close>

definition worker_completes ::
  "pipeline \<Rightarrow> nat \<Rightarrow> task list \<times> Result list \<Rightarrow> task list \<times> Result list" where
  "worker_completes pipeline i state =
     (case state of (experiment_tasks, printed) \<Rightarrow>
        if i < length experiment_tasks then
          (case experiment_tasks ! i of
             (config, Pending) \<Rightarrow>
               (case run_experiments pipeline (fst config) (snd config) of
                  Inr r \<Rightarrow> (experiment_tasks[i := (config, Ready r)], printed @ [r])
                | Inl e \<Rightarrow>
                    if is_Exception e then (experiment_tasks[i := (config, Failed e)], printed)
                    else (experiment_tasks, printed))
           | (config, _) \<Rightarrow> (experiment_tasks, printed))
        else (experiment_tasks, printed))"

text \<open>
  The list comprehension over \<open>task.get()\<close>, from the first task on: \<open>get\<close> returns the value
  of a ready task, raises the exception of a failed task, and blocks on a task that stays
  pending (\<open>None\<close>).
\<close>

fun gather :: "task list \<Rightarrow> (py_error + Result list) option" where
  "gather [] = Some (Inr [])"
| "gather ((config, Pending) # rest) = None"
| "gather ((config, Failed e) # rest) = Some (Inl e)"
| "gather ((config, Ready r) # rest) =
     (case gather rest of
        None \<Rightarrow> None
      | Some (Inl e) \<Rightarrow> Some (Inl e)
      | Some (Inr experiment_results) \<Rightarrow> Some (Inr (r # experiment_results)))"

text \<open>
  The scheduling part of \<open>main\<close>, for \<open>NUM_EXP\<close> processes. \<open>Some (Inr (results, printed))\<close>
  when it returns, \<open>Some (Inl e)\<close> when it raises, \<open>None\<close> when it blocks on a task that stays
  pending. \<open>Pool(NUM_EXP)\<close> raises for fewer than one process.
\<close>

definition run_all ::
  "pipeline \<Rightarrow> (int \<Rightarrow> py_error option) \<Rightarrow> int \<Rightarrow> int \<Rightarrow> nat list \<Rightarrow> config list
     \<Rightarrow> (py_error + Result list \<times> Result list) option" where
  "run_all pipeline os_sleep NUM_EXP delay_seconds schedule experiment_configs =
     (if NUM_EXP = 1 then
        Some (run_sequentially pipeline experiment_configs ([], []))
      else if NUM_EXP < 1 then
        Some (Inl (ValueError ''Number of processes must be at least 1''))
      else
        (case submit_all os_sleep delay_seconds experiment_configs [] of
           Inl e \<Rightarrow> Some (Inl e)
         | Inr experiment_tasks \<Rightarrow>
             (case fold (worker_completes pipeline) schedule (experiment_tasks, []) of
                (finished, printed) \<Rightarrow>
                  (case gather finished of
                     None \<Rightarrow> None
                   | Some (Inl e) \<Rightarrow> Some (Inl e)
                   | Some (Inr experiment_results) \<Rightarrow> Some (Inr (experiment_results, printed))))))"

section \<open>The orchestrator: promoting the best targets\<close>

text \<open>\<open>p.rfind(c)\<close> for one character: the last index of \<open>c\<close>, or \<open>-1\<close>.\<close>

definition rfind :: "pystr \<Rightarrow> nat \<Rightarrow> int" where
  "rfind p c =
     (case dropWhile (\<lambda>x. x \<noteq> c) (rev p) of
        [] \<Rightarrow> - 1
      | _ # before \<Rightarrow> int (length before))"

text \<open>
  \<open>os.path.splitext\<close> on POSIX: the extension starts at the last dot, when that dot lies
  after the last slash and some character between the slash and the dot is not a dot.
\<close>

definition splitext :: "pystr \<Rightarrow> pystr \<times> pystr" where
  "splitext p =
     (let sepIndex = rfind p 47;
          dotIndex = rfind p 46
      in if dotIndex > sepIndex
            \<and> list_ex (\<lambda>c. c \<noteq> 46)
                 (take (nat (dotIndex - (sepIndex + 1))) (drop (nat (sepIndex + 1)) p))
         then (take (nat dotIndex) p, drop (nat dotIndex) p)
         else (p, []))"

text \<open>
  What \<open>_save_best_target\<close> takes from outside: \<open>uuid4 k\<close> is the text of the \<open>k\<close>-th value
  the generator \<open>uuid.uuid4\<close> hands out, \<open>today\<close> and \<open>hostname\<close> are the date and the host
  name, \<open>str_float\<close> is the text an f-string prints for a float, and
  \<open>upload name file\<close> is what the storage client does with one upload: \<open>None\<close> when
  it stores the file, \<open>Some e\<close> when it raises.
\<close>

record environment =
  uuid4 :: "nat \<Rightarrow> pystr"
  today :: pystr
  hostname :: pystr
  str_float :: "pyfloat \<Rightarrow> pystr"
  upload :: "pystr \<Rightarrow> pystr \<Rightarrow> py_error option"

definition save_name_of :: "environment \<Rightarrow> pystr \<Rightarrow> pystr \<Rightarrow> Result \<Rightarrow> AggregatedResult \<Rightarrow> pystr" where
  "save_name_of env exp_name rand_id r aggregated =
     (let best_cov = max_line_coverage_diff aggregated;
          best_target = max_coverage_diff_sample aggregated;
          ext = snd (splitext best_target)
      in ascii ''llm_generated_targets/'' @ project (benchmark r) @ ascii ''/''
         @ function_name (benchmark r) @ ascii ''-'' @ str_float env best_cov
         @ ascii ''-'' @ exp_name @ ascii ''-'' @ rand_id @ ext)"

text \<open>
  The loop over the results. The state is the list of uploads made, each the name in the
  bucket and the local file; an upload that raises ends the loop with the exception.
\<close>

fun save_loop ::
  "environment \<Rightarrow> pystr \<Rightarrow> pystr \<Rightarrow> Result list \<Rightarrow> (pystr \<times> pystr) list
     \<Rightarrow> (pystr \<times> pystr) list \<times> py_error option" where
  "save_loop env exp_name rand_id [] uploaded = (uploaded, None)"
| "save_loop env exp_name rand_id (r # rest) uploaded =
     (case result r of
        Failure _ \<Rightarrow> save_loop env exp_name rand_id rest uploaded
      | Aggregated aggregated \<Rightarrow>
          (let best_cov = max_line_coverage_diff aggregated;
               best_target = max_coverage_diff_sample aggregated;
               save_name = save_name_of env exp_name rand_id r aggregated
           in if float_lt (Finite 0) best_cov then
                (case upload env save_name best_target of
                   None \<Rightarrow> save_loop env exp_name rand_id rest (uploaded @ [(save_name, best_target)])
                 | Some e \<Rightarrow> (uploaded, Some e))
              else save_loop env exp_name rand_id rest uploaded))"

text \<open>
  \<open>_save_best_target\<close>, with the number \<open>k\<close> of values the generator has handed out so far.
  The value is the uploads made, the exception if one was raised, and the number of values
  handed out afterwards.
\<close>

definition save_best_target ::
  "environment \<Rightarrow> nat \<Rightarrow> Result list \<Rightarrow> pystr \<Rightarrow> ((pystr \<times> pystr) list \<times> py_error option) \<times> nat" where
  "save_best_target env k results exp_name =
     (let rand_id = takeWhile (\<lambda>c. c \<noteq> 45) (uuid4 env k);
          k' = Suc k;
          exp_name' = (if exp_name = [] then today env @ ascii ''-'' @ hostname env else exp_name)
      in (save_loop env exp_name' rand_id results [], k'))"

section \<open>The orchestrator: \<open>main\<close>\<close>

text \<open>
  \<open>main\<close>, from the namespace the argument parser returned: the arguments are checked,
  the configs are built, the experiments are run, and with a save bucket the best targets
  are uploaded; an instance of \<open>Exception\<close> raised by the upload is caught and logged.
  (\<open>prepare\<close> of the pipeline module is a collaborator and leaves no trace here.) The value,
  when \<open>main\<close> returns, is the list of results, the reports printed as the experiments
  finished, the uploads made and the errors logged.
\<close>

definition main ::
  "(pystr \<Rightarrow> bool) \<Rightarrow> (pystr \<Rightarrow> py_error + pystr list) \<Rightarrow> (pystr \<Rightarrow> benchmark list) \<Rightarrow> pipeline
     \<Rightarrow> (int \<Rightarrow> py_error option) \<Rightarrow> environment \<Rightarrow> nat \<Rightarrow> int \<Rightarrow> nat list \<Rightarrow> namespace
     \<Rightarrow> (py_error + Result list \<times> Result list \<times> (pystr \<times> pystr) list \<times> py_error list) option" where
  "main isdir listdir from_yaml pipeline os_sleep env k NUM_EXP schedule parsed =
     (case parse_args isdir parsed of
        Inl e \<Rightarrow> Some (Inl e)
      | Inr ns \<Rightarrow>
          (case get_experiment_configs listdir from_yaml ns of
             Inl e \<Rightarrow> Some (Inl e)
           | Inr experiment_configs \<Rightarrow>
               (case run_all pipeline os_sleep NUM_EXP (delay ns) schedule experiment_configs of
                  None \<Rightarrow> None
                | Some (Inl e) \<Rightarrow> Some (Inl e)
                | Some (Inr (experiment_results, printed)) \<Rightarrow>
                    (if cloud_save_bucket ns \<noteq> [] then
                       (case fst (save_best_target env k experiment_results (cloud_experiment_name ns)) of
                          (uploaded, None) \<Rightarrow> Some (Inr (experiment_results, printed, uploaded, []))
                        | (uploaded, Some e) \<Rightarrow>
                            if is_Exception e
                            then Some (Inr (experiment_results, printed, uploaded, [e]))
                            else Some (Inl e))
                     else Some (Inr (experiment_results, printed, [], []))))))"

section \<open>Auxiliary definitions\<close>

text \<open>
  For the proofs: what a worker leaves in the task of a config, and the task list of
  \<open>configs\<close> when exactly the tasks with an index in \<open>D\<close> have been taken by a worker.
\<close>

definition settled :: "pipeline \<Rightarrow> config \<Rightarrow> apply_result" where
  "settled pipeline config =
     (case run_experiments pipeline (fst config) (snd config) of
        Inr r \<Rightarrow> Ready r
      | Inl e \<Rightarrow> if is_Exception e then Failed e else Pending)"

definition tasks_done :: "pipeline \<Rightarrow> config list \<Rightarrow> nat set \<Rightarrow> task list" where
  "tasks_done pipeline configs D =
     map (\<lambda>i. (configs ! i, if i \<in> D then settled pipeline (configs ! i) else Pending))
       [0..<length configs]"

text \<open>
  For the statements below: the upload that the loop makes for one result, if any.
\<close>

definition promotion :: "environment \<Rightarrow> pystr \<Rightarrow> pystr \<Rightarrow> Result \<Rightarrow> (pystr \<times> pystr) list" where
  "promotion env label rand_id r =
     (case result r of
        Failure _ \<Rightarrow> []
      | Aggregated aggregated \<Rightarrow>
          if float_lt (Finite 0) (max_line_coverage_diff aggregated)
          then [(ascii ''llm_generated_targets/'' @ project (benchmark r) @ ascii ''/''
                 @ function_name (benchmark r) @ ascii ''-''
                 @ str_float env (max_line_coverage_diff aggregated)
                 @ ascii ''-'' @ label @ ascii ''-'' @ rand_id
                 @ snd (splitext (max_coverage_diff_sample aggregated)),
                 max_coverage_diff_sample aggregated)]
          else [])"

section \<open>Example values\<close>

text \<open>The concrete inputs of the instances and counterexamples below.\<close>

definition example_namespace :: namespace where
  "example_namespace =
     \<lparr>num_samples = 5, temperature = Finite (2 / 5), cloud_experiment_name = [],
      cloud_experiment_bucket = [], cloud_save_bucket = [],
      benchmarks_directory = Some (ascii ''benchmarks''), benchmark_yaml = None,
      run_timeout = 30, ai_binary = [], model = ascii ''m'',
      template_directory = ascii ''prompts'', work_dir = ascii ''results'',
      context' = False, delay = 0\<rparr>"

definition example_benchmark_a :: benchmark where
  "example_benchmark_a =
     \<lparr>id' = ascii ''a-f'', project = ascii ''a'', function_name = ascii ''f'',
      function_signature = ascii ''int f()''\<rparr>"

definition example_benchmark_b :: benchmark where
  "example_benchmark_b =
     \<lparr>id' = ascii ''b-g'', project = ascii ''b'', function_name = ascii ''g'',
      function_signature = ascii ''int g()''\<rparr>"

text \<open>A pipeline that raises for the project \<open>a\<close> and succeeds for every other project.\<close>

definition example_pipeline :: pipeline where
  "example_pipeline bench ns =
     (if project bench = ascii ''a'' then Inl (Exception (ascii ''boom''))
      else Inr \<lparr>max_line_coverage_diff = Finite 5, max_coverage_diff_sample = ascii ''out/02.c''\<rparr>)"

text \<open>An environment whose storage client accepts every upload.\<close>

definition example_environment :: environment where
  "example_environment =
     \<lparr>uuid4 = (\<lambda>k. ascii ''1b4e28ba-2fa1-11d2-883f-0016d3cca427''),
      today = ascii ''2024-05-01'', hostname = ascii ''host'',
      str_float = (\<lambda>x. ascii ''5.0''), upload = (\<lambda>name file. None)\<rparr>"

text \<open>A pipeline in which the interpreter is told to exit.\<close>

definition example_exiting_pipeline :: pipeline where
  "example_exiting_pipeline bench ns = Inl SystemExit"

text \<open>An operating system that performs every sleep.\<close>

definition example_os_sleep :: "int \<Rightarrow> py_error option" where
  "example_os_sleep secs = None"

text \<open>An environment whose storage client refuses the file \<open>out/02.c\<close>.\<close>

definition example_refusing_environment :: environment where
  "example_refusing_environment =
     example_environment
       \<lparr>upload := (\<lambda>name file. if file = ascii ''out/02.c''
                               then Some (StorageError ''upload failed'') else None)\<rparr>"

lemmas example_defs =
  example_namespace_def example_benchmark_a_def example_benchmark_b_def
  example_pipeline_def example_environment_def example_exiting_pipeline_def
  example_os_sleep_def example_refusing_environment_def

section \<open>Properties of the agent\<close>

subsection \<open>Properties of \<open>_filter_code\<close>\<close>

lemma splitlines_Nil: "splitlines [] = []" by (simp add: splitlines.simps)

lemma splitlines_no_break:
  "l \<in> set (splitlines s) \<Longrightarrow> c \<in> set l \<Longrightarrow> \<not> is_linebreak c"
proof (induction s arbitrary: l rule: splitlines.induct)
  case (1 s)
  show ?case
  proof (cases "s = []")
    case True
    with "1.prems" show ?thesis by (simp add: splitlines.simps)
  next
    case False
    from "1.prems"(1) False
    consider "l = takeWhile (\<lambda>c. \<not> is_linebreak c) s"
      | "l \<in> set (splitlines (drop_eol (dropWhile (\<lambda>c. \<not> is_linebreak c) s)))"
      by (subst (asm) splitlines.simps) auto
    then show ?thesis
    proof cases
      case 1
      with "1.prems"(2) show ?thesis by (auto dest: set_takeWhileD)
    next
      case 2
      with "1.IH" False "1.prems"(2) show ?thesis by blast
    qed
  qed
qed

lemma splitlines_line:
  assumes "\<forall>c\<in>set l. \<not> is_linebreak c"
  shows "splitlines (l @ 10 # rest) = l # splitlines rest"
proof -
  have lb: "is_linebreak 10" by (simp add: is_linebreak_def)
  have tw: "takeWhile (\<lambda>c. \<not> is_linebreak c) (l @ 10 # rest) = l"
    using assms lb by (simp add: takeWhile_tail)
  have dw: "dropWhile (\<lambda>c. \<not> is_linebreak c) (l @ 10 # rest) = 10 # rest"
    using assms lb by (simp add: dropWhile_append3)
  have de: "drop_eol (10 # rest) = rest" by (cases rest) auto
  show ?thesis by (subst splitlines.simps) (simp add: tw dw de)
qed

lemma splitlines_single:
  assumes "\<forall>c\<in>set l. \<not> is_linebreak c"
  shows "splitlines l = (if l = [] then [] else [l])"
proof (cases "l = []")
  case True then show ?thesis by (simp add: splitlines_Nil)
next
  case False
  have tw: "takeWhile (\<lambda>c. \<not> is_linebreak c) l = l" using assms by simp
  have dw: "dropWhile (\<lambda>c. \<not> is_linebreak c) l = []" using assms by simp
  show ?thesis using False by (subst splitlines.simps) (simp add: tw dw splitlines_Nil)
qed

lemma splitlines_join:
  "\<forall>l\<in>set ls. \<forall>c\<in>set l. \<not> is_linebreak c \<Longrightarrow>
   splitlines (join NL ls) = (if ls \<noteq> [] \<and> last ls = [] then butlast ls else ls)"
proof (induction ls rule: induct_list012)
  case 1 then show ?case by (simp add: splitlines_Nil)
next
  case (2 x) then show ?case by (simp add: splitlines_single)
next
  case (3 x y zs)
  from "3.prems" have x: "\<forall>c\<in>set x. \<not> is_linebreak c" by simp
  from "3.prems" have "\<forall>l\<in>set (y # zs). \<forall>c\<in>set l. \<not> is_linebreak c" by simp
  then have ih: "splitlines (join NL (y # zs)) =
      (if y # zs \<noteq> [] \<and> last (y # zs) = [] then butlast (y # zs) else y # zs)"
    by (rule "3.IH"(2))
  have "splitlines (join NL (x # y # zs)) = x # splitlines (join NL (y # zs))"
    using splitlines_line [OF x] by (simp add: NL_def)
  with ih show ?case by simp
qed

lemma join_butlast_empty:
  "ls \<noteq> [] \<Longrightarrow> last ls = [] \<Longrightarrow> join NL ls = (if butlast ls = [] then [] else join NL (butlast ls) @ NL)"
  by (induction ls rule: induct_list012) (auto split: if_splits)

lemma join_last_nonempty:
  "ls \<noteq> [] \<Longrightarrow> last ls \<noteq> [] \<Longrightarrow> join NL ls \<noteq> [] \<and> last (join NL ls) = last (last ls)"
  by (induction ls rule: induct_list012) (auto simp: NL_def split: if_splits)

lemma filter_code_lines:
  "splitlines (filter_code s) =
     (let kept = filter (\<lambda>line. \<not> is_fence line) (splitlines s)
      in if kept \<noteq> [] \<and> last kept = [] then butlast kept else kept)"
proof -
  have "\<forall>l\<in>set (filter (\<lambda>line. \<not> is_fence line) (splitlines s)). \<forall>c\<in>set l. \<not> is_linebreak c"
    by (auto dest: splitlines_no_break)
  then show ?thesis
    unfolding filter_code_def Let_def by (rule splitlines_join)
qed

lemma filter_code_twice:
  "filter_code (filter_code s) = filter_code s \<longleftrightarrow> \<not> endswith (filter_code s) NL"
proof -
  define F where "F = filter (\<lambda>line. \<not> is_fence line) (splitlines s)"
  have nb: "\<forall>l\<in>set F. \<forall>c\<in>set l. \<not> is_linebreak c"
    unfolding F_def by (auto dest: splitlines_no_break)
  have nf: "\<forall>l\<in>set F. \<not> is_fence l" unfolding F_def by simp
  have fs: "filter_code s = join NL F" by (simp add: filter_code_def F_def)
  have sl: "splitlines (join NL F) = (if F \<noteq> [] \<and> last F = [] then butlast F else F)"
    using nb by (rule splitlines_join)
  show ?thesis
  proof (cases "F \<noteq> [] \<and> last F = []")
    case False
    with sl have "splitlines (join NL F) = F" by auto
    moreover from nf have "filter (\<lambda>line. \<not> is_fence line) F = F" by simp
    ultimately have twice: "filter_code (join NL F) = join NL F"
      by (simp add: filter_code_def)
    have "\<not> suffix NL (join NL F)"
    proof (cases "F = []")
      case True then show ?thesis by (simp add: NL_def)
    next
      case F: False
      with False have l: "last F \<noteq> []" by simp
      with F have j: "join NL F \<noteq> []" "last (join NL F) = last (last F)"
        using join_last_nonempty by blast+
      from F l have "last (last F) \<in> set (last F)" "last F \<in> set F" by simp_all
      with nb have "\<not> is_linebreak (last (last F))" by blast
      then have "last (last F) \<noteq> 10" by (auto simp: is_linebreak_def)
      with j show ?thesis by (auto simp: NL_def suffix_def)
    qed
    with twice fs show ?thesis by (simp add: endswith_def)
  next
    case True
    then have sl': "splitlines (join NL F) = butlast F" using sl by simp
    from nf have "filter (\<lambda>line. \<not> is_fence line) (butlast F) = butlast F"
      by (simp add: in_set_butlastD)
    with sl' have twice: "filter_code (join NL F) = join NL (butlast F)"
      by (simp add: filter_code_def)
    from True have j: "join NL F = (if butlast F = [] then [] else join NL (butlast F) @ NL)"
      by (simp add: join_butlast_empty)
    show ?thesis
    proof (cases "butlast F = []")
      case True
      with j twice fs show ?thesis by (simp add: endswith_def NL_def)
    next
      case False
      with j twice fs show ?thesis by (simp add: endswith_def NL_def)
    qed
  qed
qed

lemma filter_code_twice_butlast:
  assumes e: "endswith (filter_code s) NL"
  shows "filter_code (filter_code s) = butlast (filter_code s)"
proof -
  define F where "F = filter (\<lambda>line. \<not> is_fence line) (splitlines s)"
  have nb: "\<forall>l\<in>set F. \<forall>c\<in>set l. \<not> is_linebreak c"
    unfolding F_def by (auto dest: splitlines_no_break)
  have nf: "\<forall>l\<in>set F. \<not> is_fence l" unfolding F_def by simp
  have fs: "filter_code s = join NL F" by (simp add: filter_code_def F_def)
  have sl: "splitlines (join NL F) = (if F \<noteq> [] \<and> last F = [] then butlast F else F)"
    using nb by (rule splitlines_join)
  from e filter_code_twice [of s] have ne: "filter_code (filter_code s) \<noteq> filter_code s"
    by blast
  have t: "F \<noteq> [] \<and> last F = []"
  proof (rule ccontr)
    assume "\<not> (F \<noteq> [] \<and> last F = [])"
    with sl have "splitlines (join NL F) = F" by auto
    moreover from nf have "filter (\<lambda>line. \<not> is_fence line) F = F" by simp
    ultimately have "filter_code (join NL F) = join NL F" by (simp add: filter_code_def)
    with ne fs show False by simp
  qed
  then have sl': "splitlines (join NL F) = butlast F" using sl by simp
  from nf have "filter (\<lambda>line. \<not> is_fence line) (butlast F) = butlast F"
    by (simp add: in_set_butlastD)
  with sl' have twice: "filter_code (join NL F) = join NL (butlast F)"
    by (simp add: filter_code_def)
  from t have j: "join NL F = (if butlast F = [] then [] else join NL (butlast F) @ NL)"
    by (simp add: join_butlast_empty)
  show ?thesis
  proof (cases "butlast F = []")
    case True
    with j twice fs ne show ?thesis by simp
  next
    case False
    with j twice fs show ?thesis by (simp add: NL_def)
  qed
qed

text \<open>
  Claim C4, as the code has it. The lines of the filtered block are the lines of the input
  that are not fence lines, in their order, except that a final empty line is not read back
  (joining with a line feed and splitting again loses it). No fence line is left. Filtering
  the filtered block again returns it unchanged exactly when it does not end in a line
  feed; otherwise the second pass drops that final line feed.
\<close>

theorem filter_code_refilter:
  "splitlines (filter_code s) =
     (let kept = filter (\<lambda>line. \<not> is_fence line) (splitlines s)
      in if kept \<noteq> [] \<and> last kept = [] then butlast kept else kept)
   \<and> (\<forall>line\<in>set (splitlines (filter_code s)). \<not> is_fence line)
   \<and> (filter_code (filter_code s) = filter_code s \<longleftrightarrow> \<not> endswith (filter_code s) NL)
   \<and> (endswith (filter_code s) NL \<longrightarrow>
        filter_code (filter_code s) = butlast (filter_code s))"
proof -
  have "\<forall>line\<in>set (splitlines (filter_code s)). \<not> is_fence line"
    by (auto simp: filter_code_lines Let_def dest: in_set_butlastD)
  with filter_code_lines filter_code_twice filter_code_twice_butlast show ?thesis by blast
qed

theorem filter_code_refilter_witness:
  "splitlines (filter_code [97, 10, 96, 96, 96, 10, 98]) = [[97], [98]]
   \<and> \<not> endswith (filter_code [97, 10, 96, 96, 96, 10, 98]) NL
   \<and> filter_code (filter_code [97, 10, 96, 96, 96, 10, 98]) = filter_code [97, 10, 96, 96, 96, 10, 98]
   \<and> endswith (filter_code [97, 10, 10]) NL
   \<and> filter_code (filter_code [97, 10, 10]) = butlast (filter_code [97, 10, 10])"
proof -
  have fc: "filter_code [97, 10, 96, 96, 96, 10, 98] = [97, 10, 98]"
    by (simp add: filter_code_def ascii_def splitlines.simps is_linebreak_def is_fence_def
        startswith_def strip_def is_whitespace_def NL_def)
  have sl: "splitlines [97, 10, 98] = [[97], [98]]"
    by (simp add: splitlines.simps is_linebreak_def)
  have ne: "\<not> endswith [97, 10, 98] NL" by (simp add: endswith_def NL_def suffix_def)
  have fc2: "filter_code [97, 10, 10] = [97, 10]"
    by (simp add: filter_code_def ascii_def splitlines.simps is_linebreak_def is_fence_def
        startswith_def strip_def is_whitespace_def NL_def)
  have e2: "endswith [97, 10] NL" by (simp add: endswith_def NL_def suffix_def)
  from filter_code_refilter [of "[97, 10, 96, 96, 96, 10, 98]"] fc sl ne
  have 1: "splitlines (filter_code [97, 10, 96, 96, 96, 10, 98]) = [[97], [98]]
   \<and> \<not> endswith (filter_code [97, 10, 96, 96, 96, 10, 98]) NL
   \<and> filter_code (filter_code [97, 10, 96, 96, 96, 10, 98]) = filter_code [97, 10, 96, 96, 96, 10, 98]"
    by simp
  from filter_code_refilter [of "[97, 10, 10]"] fc2 e2
  have 2: "endswith (filter_code [97, 10, 10]) NL
   \<and> filter_code (filter_code [97, 10, 10]) = butlast (filter_code [97, 10, 10])"
    by simp
  from 1 2 show ?thesis by blast
qed

text \<open>
  The claim as stated fails: a block whose last kept line is empty loses one line feed at
  each pass.
\<close>

theorem filter_code_idempotent_counterexample:
  "filter_code (ascii ''a\<newline>\<newline>'') = ascii ''a\<newline>''
   \<and> filter_code (filter_code (ascii ''a\<newline>\<newline>'')) = ascii ''a''
   \<and> filter_code (filter_code (ascii ''a\<newline>\<newline>'')) \<noteq> filter_code (ascii ''a\<newline>\<newline>'')"
  by (simp add: filter_code_def ascii_def splitlines.simps is_linebreak_def is_fence_def
      startswith_def strip_def is_whitespace_def NL_def)

subsection \<open>Properties of \<open>_parse_tag\<close>\<close>

lemma prefix_of_longer:
  "prefix xs (ys @ zs) \<Longrightarrow> length xs \<le> length ys \<Longrightarrow> prefix xs ys"
  by (metis prefix_append prefix_length_le prefix_order.antisym prefix_order.eq_iff append_eq_append_conv_if prefix_def append_prefixD take_is_prefix)

lemma not_sublist_butlast: "xs \<noteq> [] \<Longrightarrow> \<not> sublist xs (butlast xs)"
proof
  assume ne: "xs \<noteq> []" and sub: "sublist xs (butlast xs)"
  from sub have "length xs \<le> length (butlast xs)" by (rule sublist_length_le)
  with ne show False by (cases xs) (simp_all split: if_splits)
qed

lemma lazy_group_found:
  assumes "closing \<noteq> []"
  shows "\<not> sublist closing (inner @ butlast closing)
         \<Longrightarrow> lazy_group closing (inner @ closing @ post) = Some inner"
proof (induction inner)
  case Nil
  have "prefix closing (closing @ post)" by simp
  then have "lazy_group closing (closing @ post) = Some []"
    by (cases "closing @ post") (simp_all del: prefix_code)
  then show ?case by simp
next
  case (Cons c r)
  have np: "\<not> prefix closing (c # r @ closing @ post)"
  proof
    assume p: "prefix closing (c # r @ closing @ post)"
    have "c # r @ closing @ post = ((c # r) @ butlast closing) @ (last closing # post)"
      using assms by simp
    moreover have "length closing \<le> length ((c # r) @ butlast closing)" by simp
    ultimately have "prefix closing ((c # r) @ butlast closing)"
      using p prefix_of_longer by metis
    with Cons.prems show False by (simp add: prefix_imp_sublist)
  qed
  from Cons.prems have "\<not> sublist closing (r @ butlast closing)"
    by (simp add: sublist_Cons_right)
  then have "lazy_group closing (r @ closing @ post) = Some r" by (rule Cons.IH)
  with np show ?case by simp
qed

lemma lazy_group_None: "closing \<noteq> [] \<Longrightarrow> lazy_group closing s = None \<longleftrightarrow> \<not> sublist closing s"
  by (induction s) (auto simp: sublist_Cons_right)

lemma lazy_group_Some:
  "lazy_group closing s = Some g \<Longrightarrow> \<exists>post. s = g @ closing @ post"
proof (induction s arbitrary: g)
  case Nil then show ?case by (auto split: if_splits)
next
  case (Cons c s)
  then show ?case by (fastforce simp: prefix_def split: if_splits)
qed

lemma match_here_Some:
  "match_here (Tagged opening closing) s = Some g \<Longrightarrow> \<exists>post. s = opening @ g @ closing @ post"
  by (auto simp: match_here_def prefix_def split: if_splits dest!: lazy_group_Some)

lemma re_search_Some:
  "re_search (Tagged opening closing) s = Some g
   \<Longrightarrow> \<exists>pre post. s = pre @ opening @ g @ closing @ post"
proof (induction s)
  case Nil
  then have "match_here (Tagged opening closing) [] = Some g" by simp
  then obtain post where "[] = opening @ g @ closing @ post"
    using match_here_Some by blast
  then have "[] = [] @ opening @ g @ closing @ post" by simp
  then show ?case by blast
next
  case (Cons c s)
  show ?case
  proof (cases "match_here (Tagged opening closing) (c # s)")
    case (Some g')
    with Cons.prems have "g' = g" by simp
    with Some obtain post where "c # s = opening @ g @ closing @ post"
      using match_here_Some by blast
    then have "c # s = [] @ opening @ g @ closing @ post" by simp
    then show ?thesis by blast
  next
    case None
    with Cons.prems have "re_search (Tagged opening closing) s = Some g" by simp
    then obtain pre post where "s = pre @ opening @ g @ closing @ post"
      using Cons.IH by blast
    then have "c # s = (c # pre) @ opening @ g @ closing @ post" by simp
    then show ?thesis by blast
  qed
qed

lemma re_search_first:
  assumes o: "opening \<noteq> []" and c: "closing \<noteq> []"
    and inner: "\<not> sublist closing (inner @ butlast closing)"
  shows "\<not> sublist opening (pre @ butlast opening)
         \<Longrightarrow> re_search (Tagged opening closing) (pre @ opening @ inner @ closing @ post)
             = Some inner"
proof (induction pre)
  case Nil
  have lg: "lazy_group closing (inner @ closing @ post) = Some inner"
    using c inner by (rule lazy_group_found)
  then have mh: "match_here (Tagged opening closing) (opening @ inner @ closing @ post) = Some inner"
    by (simp add: match_here_def)
  show ?case
    by (cases "opening @ inner @ closing @ post") (use o mh in \<open>auto simp del: append_eq_Cons_conv\<close>)
next
  case (Cons x r)
  let ?rest = "r @ opening @ inner @ closing @ post"
  have np: "\<not> prefix opening (x # ?rest)"
  proof
    assume p: "prefix opening (x # ?rest)"
    have "x # ?rest = ((x # r) @ butlast opening) @ (last opening # inner @ closing @ post)"
      using o by simp
    moreover have "length opening \<le> length ((x # r) @ butlast opening)" by simp
    ultimately have "prefix opening ((x # r) @ butlast opening)"
      using p prefix_of_longer by metis
    with Cons.prems show False by (simp add: prefix_imp_sublist)
  qed
  then have "match_here (Tagged opening closing) (x # ?rest) = None"
    by (simp add: match_here_def)
  moreover from Cons.prems have "\<not> sublist opening (r @ butlast opening)"
    by (simp add: sublist_Cons_right)
  then have "re_search (Tagged opening closing) ?rest = Some inner" by (rule Cons.IH)
  ultimately show ?case by simp
qed

lemma lazy_group_Some_first:
  assumes c: "closing \<noteq> []"
  shows "lazy_group closing s = Some g \<Longrightarrow> \<not> sublist closing (g @ butlast closing)"
proof (induction s arbitrary: g)
  case Nil
  with c show ?case by simp
next
  case (Cons x r)
  show ?case
  proof (cases "prefix closing (x # r)")
    case True
    with Cons.prems have "g = []" by simp
    with c show ?thesis by (simp add: not_sublist_butlast)
  next
    case False
    with Cons.prems obtain g' where g: "g = x # g'" and lg: "lazy_group closing r = Some g'"
      by auto
    from lg obtain post where r: "r = g' @ closing @ post"
      using lazy_group_Some by blast
    have "x # r = (x # g' @ butlast closing) @ (last closing # post)"
      using r c by simp
    then have "prefix (x # g' @ butlast closing) (x # r)"
      by (metis prefixI)
    with False have "\<not> prefix closing (x # g' @ butlast closing)"
      using prefix_order.trans by blast
    moreover from lg have "\<not> sublist closing (g' @ butlast closing)" by (rule Cons.IH)
    ultimately show ?thesis using g by (simp add: sublist_Cons_right)
  qed
qed

lemma re_search_Some_first:
  assumes o: "opening \<noteq> []" and c: "closing \<noteq> []"
  shows "re_search (Tagged opening closing) s = Some g
         \<Longrightarrow> \<exists>pre post. s = pre @ opening @ g @ closing @ post
               \<and> \<not> sublist opening (pre @ butlast opening)
               \<and> \<not> sublist closing (g @ butlast closing)"
proof (induction s)
  case Nil
  then have "match_here (Tagged opening closing) [] = Some g" by simp
  with o show ?case by (simp add: match_here_def)
next
  case (Cons x r)
  show ?case
  proof (cases "match_here (Tagged opening closing) (x # r)")
    case (Some g')
    with Cons.prems have mh: "match_here (Tagged opening closing) (x # r) = Some g" by simp
    then obtain post where "x # r = opening @ g @ closing @ post"
      using match_here_Some by blast
    then have 1: "x # r = [] @ opening @ g @ closing @ post" by simp
    from mh have "lazy_group closing (drop (length opening) (x # r)) = Some g"
      by (simp add: match_here_def split: if_splits)
    with c have 2: "\<not> sublist closing (g @ butlast closing)"
      by (rule lazy_group_Some_first)
    from o have 3: "\<not> sublist opening ([] @ butlast opening)"
      by (simp add: not_sublist_butlast)
    from 1 2 3 show ?thesis by blast
  next
    case None
    with Cons.prems have "re_search (Tagged opening closing) r = Some g" by simp
    then obtain pre post where r: "r = pre @ opening @ g @ closing @ post"
      and f1: "\<not> sublist opening (pre @ butlast opening)"
      and f2: "\<not> sublist closing (g @ butlast closing)"
      using Cons.IH by blast
    have np: "\<not> prefix opening (x # pre @ butlast opening)"
    proof
      assume p: "prefix opening (x # pre @ butlast opening)"
      have "x # r = (x # pre @ butlast opening) @ (last opening # g @ closing @ post)"
        using r o by simp
      then have "prefix (x # pre @ butlast opening) (x # r)" by (metis prefixI)
      with p have po: "prefix opening (x # r)" using prefix_order.trans by blast
      with None have "lazy_group closing (drop (length opening) (x # r)) = None"
        by (simp add: match_here_def)
      with c have ns: "\<not> sublist closing (drop (length opening) (x # r))"
        by (simp add: lazy_group_None)
      have "x # r = (x # pre @ opening @ g) @ closing @ post" using r by simp
      moreover have "length opening \<le> length (x # pre @ opening @ g)" by simp
      ultimately have "drop (length opening) (x # r)
          = drop (length opening) (x # pre @ opening @ g) @ closing @ post"
        by (metis drop_append diff_is_0_eq drop0)
      then have "sublist closing (drop (length opening) (x # r))"
        by (metis sublist_appendI)
      with ns show False by blast
    qed
    with f1 have "\<not> sublist opening ((x # pre) @ butlast opening)"
      by (simp add: sublist_Cons_right)
    moreover from r have "x # r = (x # pre) @ opening @ g @ closing @ post" by simp
    ultimately show ?thesis using f2 by blast
  qed
qed

lemma re_search_exists:
  assumes c: "closing \<noteq> []"
  shows "re_search (Tagged opening closing) (pre @ opening @ inner @ closing @ post) \<noteq> None"
proof (induction pre)
  case Nil
  have "sublist closing (inner @ closing @ post)" by (rule sublist_appendI)
  with c have "lazy_group closing (inner @ closing @ post) \<noteq> None"
    by (simp add: lazy_group_None)
  then have "match_here (Tagged opening closing) (opening @ inner @ closing @ post) \<noteq> None"
    by (simp add: match_here_def)
  then show ?case
    by (cases "opening @ inner @ closing @ post") (auto simp del: append_eq_Cons_conv)
next
  case (Cons x r)
  then show ?case by (auto split: option.splits)
qed

lemma open_tag_nonempty: "open_tag tag \<noteq> []"
  by (simp add: open_tag_def ascii_def)

lemma close_tag_nonempty: "close_tag tag \<noteq> []"
  by (simp add: close_tag_def ascii_def)

lemma re_compile_plain:
  "\<forall>c\<in>set tag. \<not> re_special c
   \<Longrightarrow> re_compile_tagged tag = Some (Inr (Tagged (open_tag tag) (close_tag tag)))"
proof -
  assume "\<forall>c\<in>set tag. \<not> re_special c"
  then have "dropWhile (\<lambda>c. \<not> re_special c) tag = []" by simp
  then show ?thesis by (simp only: re_compile_tagged_def list.case)
qed

lemma parse_tag_first:
  assumes "\<forall>c\<in>set tag. \<not> re_special c"
    and "response = pre @ open_tag tag @ inner @ close_tag tag @ post"
    and "\<not> sublist (open_tag tag) (pre @ butlast (open_tag tag))"
    and "\<not> sublist (close_tag tag) (inner @ butlast (close_tag tag))"
  shows "parse_tag response tag = Some (Inr (strip inner))"
proof -
  have "re_search (Tagged (open_tag tag) (close_tag tag)) response = Some inner"
    unfolding assms(2)
    using open_tag_nonempty close_tag_nonempty assms(4) assms(3) by (rule re_search_first)
  with assms(1) show ?thesis by (simp add: parse_tag_def re_compile_plain)
qed

lemma parse_tag_absent:
  assumes "\<forall>c\<in>set tag. \<not> re_special c"
    and "\<nexists>pre inner post. response = pre @ open_tag tag @ inner @ close_tag tag @ post"
  shows "parse_tag response tag = Some (Inr [])"
proof -
  have "re_search (Tagged (open_tag tag) (close_tag tag)) response = None"
  proof (cases "re_search (Tagged (open_tag tag) (close_tag tag)) response")
    case None then show ?thesis .
  next
    case (Some g)
    then have "\<exists>pre post. response = pre @ open_tag tag @ g @ close_tag tag @ post"
      by (rule re_search_Some)
    with assms(2) show ?thesis by blast
  qed
  with assms(1) show ?thesis by (simp add: parse_tag_def re_compile_plain)
qed

lemma first_block_exists:
  assumes "response = pre @ open_tag tag @ inner @ close_tag tag @ post"
  shows "\<exists>pre' inner' post'. response = pre' @ open_tag tag @ inner' @ close_tag tag @ post'
           \<and> \<not> sublist (open_tag tag) (pre' @ butlast (open_tag tag))
           \<and> \<not> sublist (close_tag tag) (inner' @ butlast (close_tag tag))"
proof -
  have "re_search (Tagged (open_tag tag) (close_tag tag)) response \<noteq> None"
    unfolding assms using close_tag_nonempty by (rule re_search_exists)
  then obtain g where "re_search (Tagged (open_tag tag) (close_tag tag)) response = Some g"
    by blast
  with open_tag_nonempty close_tag_nonempty
  have "\<exists>pre' post'. response = pre' @ open_tag tag @ g @ close_tag tag @ post'
           \<and> \<not> sublist (open_tag tag) (pre' @ butlast (open_tag tag))
           \<and> \<not> sublist (close_tag tag) (g @ butlast (close_tag tag))"
    by (rule re_search_Some_first)
  then show ?thesis by blast
qed

lemma parse_tag_returns:
  "\<forall>c\<in>set tag. \<not> re_special c \<Longrightarrow> \<exists>text. parse_tag response tag = Some (Inr text)"
  by (simp add: parse_tag_def re_compile_plain)

text \<open>
  Claim C3, for the tags the pattern takes literally (no special character). Extraction
  returns; when the response holds the opening tag, some text and the closing tag, the
  result is the stripped text between the first opening tag and the first closing tag after
  it, whatever characters (line breaks too) lie between; such a first block exists whenever
  any block does; and when the response holds no block the result is the empty string.
\<close>

theorem parse_tag_plain:
  assumes "\<forall>c\<in>set tag. \<not> re_special c"
  shows "(\<exists>text. parse_tag response tag = Some (Inr text))
    \<and> (\<forall>pre inner post.
          response = pre @ open_tag tag @ inner @ close_tag tag @ post
          \<and> \<not> sublist (open_tag tag) (pre @ butlast (open_tag tag))
          \<and> \<not> sublist (close_tag tag) (inner @ butlast (close_tag tag))
          \<longrightarrow> parse_tag response tag = Some (Inr (strip inner)))
    \<and> ((\<exists>pre inner post. response = pre @ open_tag tag @ inner @ close_tag tag @ post)
          \<longrightarrow> (\<exists>pre inner post.
                 response = pre @ open_tag tag @ inner @ close_tag tag @ post
                 \<and> \<not> sublist (open_tag tag) (pre @ butlast (open_tag tag))
                 \<and> \<not> sublist (close_tag tag) (inner @ butlast (close_tag tag))))
    \<and> ((\<nexists>pre inner post. response = pre @ open_tag tag @ inner @ close_tag tag @ post)
          \<longrightarrow> parse_tag response tag = Some (Inr []))"
proof (intro conjI allI impI)
  show "\<exists>text. parse_tag response tag = Some (Inr text)"
    using assms by (rule parse_tag_returns)
next
  fix pre inner post
  assume "response = pre @ open_tag tag @ inner @ close_tag tag @ post
          \<and> \<not> sublist (open_tag tag) (pre @ butlast (open_tag tag))
          \<and> \<not> sublist (close_tag tag) (inner @ butlast (close_tag tag))"
  with assms show "parse_tag response tag = Some (Inr (strip inner))"
    using parse_tag_first by blast
next
  assume "\<exists>pre inner post. response = pre @ open_tag tag @ inner @ close_tag tag @ post"
  then show "\<exists>pre inner post.
                 response = pre @ open_tag tag @ inner @ close_tag tag @ post
                 \<and> \<not> sublist (open_tag tag) (pre @ butlast (open_tag tag))
                 \<and> \<not> sublist (close_tag tag) (inner @ butlast (close_tag tag))"
    using first_block_exists by blast
next
  assume "\<nexists>pre inner post. response = pre @ open_tag tag @ inner @ close_tag tag @ post"
  with assms show "parse_tag response tag = Some (Inr [])" by (rule parse_tag_absent)
qed

lemma bash_plain: "\<forall>c\<in>set (ascii ''bash''). \<not> re_special c"
  by (simp add: ascii_def re_special_def)

theorem parse_tag_plain_witness:
  "parse_tag (ascii ''hi <bash>\<newline>ls -l\<newline></bash> bye <bash>pwd</bash>'') (ascii ''bash'')
     = Some (Inr (ascii ''ls -l''))"
proof -
  have d: "ascii ''hi <bash>\<newline>ls -l\<newline></bash> bye <bash>pwd</bash>''
      = ascii ''hi '' @ open_tag (ascii ''bash'') @ ascii ''\<newline>ls -l\<newline>''
        @ close_tag (ascii ''bash'') @ ascii '' bye <bash>pwd</bash>''"
    by (simp add: ascii_def open_tag_def close_tag_def)
  have f1: "\<not> sublist (open_tag (ascii ''bash'')) (ascii ''hi '' @ butlast (open_tag (ascii ''bash'')))"
    by (simp add: ascii_def open_tag_def sublist_Cons_right)
  have f2: "\<not> sublist (close_tag (ascii ''bash''))
               (ascii ''\<newline>ls -l\<newline>'' @ butlast (close_tag (ascii ''bash'')))"
    by (simp add: ascii_def close_tag_def sublist_Cons_right)
  have st: "strip (ascii ''\<newline>ls -l\<newline>'') = ascii ''ls -l''"
    by (simp add: ascii_def strip_def is_whitespace_def)
  from parse_tag_plain [OF bash_plain, of "ascii ''hi <bash>\<newline>ls -l\<newline></bash> bye <bash>pwd</bash>''"]
  have "parse_tag (ascii ''hi <bash>\<newline>ls -l\<newline></bash> bye <bash>pwd</bash>'') (ascii ''bash'')
      = Some (Inr (strip (ascii ''\<newline>ls -l\<newline>'')))"
    using d f1 f2 by blast
  with st show ?thesis by simp
qed

text \<open>
  The claim as stated, for every tag, fails: the tag is spliced into the pattern unescaped,
  and for the tag \<open>)\<close> compiling the pattern raises, also on a response that holds a block
  of that tag.
\<close>

theorem parse_tag_raises_counterexample:
  "parse_tag (ascii ''<)>ls</)>'') (ascii '')'') = Some (Inl Unbalanced_parenthesis)"
  by (simp add: parse_tag_def re_compile_tagged_def re_special_def ascii_def)

lemma handle_command:
  "parse_tag response (ascii ''bash'') = Some (Inr command) \<Longrightarrow> command \<noteq> [] \<Longrightarrow>
   container_handle_bash_command build logged cur_round response tool =
     Some (Inr (build (format_bash_execution_result (execute tool command)), logged))"
  by (simp add: container_handle_bash_command_def)

lemma handle_no_command:
  "parse_tag response (ascii ''bash'') = Some (Inr []) \<Longrightarrow>
   container_handle_bash_command build logged cur_round response tool =
     Some (Inr (build (ascii ''No bash command received, Please follow the interaction protocols:\<newline>''
                       @ tutorial tool),
                logged @ [(WARNING, ascii ''ROUND '' @ str_int cur_round
                                    @ ascii '' No BASH command from LLM response: '' @ response)]))"
  by (simp add: container_handle_bash_command_def)

text \<open>
  Claim C5. Handling a round returns a prompt and a log for every response, round number
  and tool. When the first \<open>bash\<close> block of the response has a non-empty stripped text, that
  text is executed by the tool and the prompt is built from the four labelled fields of the
  completed process, in the order invocation, return code, stdout, stderr, whatever the
  return code and the outputs are; nothing is logged. When the block's stripped text is
  empty, or the response has no block, a warning with the round number and the response
  is logged and the prompt is built from the tool's tutorial.
\<close>

theorem container_handle_bash_command_round:
  "(\<exists>prompt logged'.
      container_handle_bash_command build logged cur_round response tool
        = Some (Inr (prompt, logged')))
   \<and> (\<forall>pre inner post.
        response = pre @ open_tag (ascii ''bash'') @ inner @ close_tag (ascii ''bash'') @ post
        \<and> \<not> sublist (open_tag (ascii ''bash'')) (pre @ butlast (open_tag (ascii ''bash'')))
        \<and> \<not> sublist (close_tag (ascii ''bash'')) (inner @ butlast (close_tag (ascii ''bash'')))
        \<and> strip inner \<noteq> []
        \<longrightarrow> container_handle_bash_command build logged cur_round response tool
            = (let process = execute tool (strip inner) in
               Some (Inr (build (ascii ''<bash>\<newline>'' @ args process
                                 @ ascii ''\<newline></bash>\<newline><return code>\<newline>''
                                 @ str_int (returncode process)
                                 @ ascii ''\<newline></return code>\<newline><stdout>\<newline>''
                                 @ stdout process
                                 @ ascii ''\<newline></stdout>\<newline><stderr>\<newline>''
                                 @ stderr process
                                 @ ascii ''\<newline></stderr>\<newline>''),
                          logged))))
   \<and> (\<forall>pre inner post.
        response = pre @ open_tag (ascii ''bash'') @ inner @ close_tag (ascii ''bash'') @ post
        \<and> \<not> sublist (open_tag (ascii ''bash'')) (pre @ butlast (open_tag (ascii ''bash'')))
        \<and> \<not> sublist (close_tag (ascii ''bash'')) (inner @ butlast (close_tag (ascii ''bash'')))
        \<and> strip inner = []
        \<longrightarrow> container_handle_bash_command build logged cur_round response tool
            = Some (Inr (build (ascii ''No bash command received, Please follow the interaction protocols:\<newline>''
                                @ tutorial tool),
                         logged @ [(WARNING, ascii ''ROUND '' @ str_int cur_round
                                    @ ascii '' No BASH command from LLM response: '' @ response)])))
   \<and> ((\<nexists>pre inner post.
         response = pre @ open_tag (ascii ''bash'') @ inner @ close_tag (ascii ''bash'') @ post)
        \<longrightarrow> container_handle_bash_command build logged cur_round response tool
            = Some (Inr (build (ascii ''No bash command received, Please follow the interaction protocols:\<newline>''
                                @ tutorial tool),
                         logged @ [(WARNING, ascii ''ROUND '' @ str_int cur_round
                                    @ ascii '' No BASH command from LLM response: '' @ response)])))"
proof (intro conjI allI impI)
  obtain command where "parse_tag response (ascii ''bash'') = Some (Inr command)"
    using parse_tag_returns [OF bash_plain] by blast
  then show "\<exists>prompt logged'.
      container_handle_bash_command build logged cur_round response tool
        = Some (Inr (prompt, logged'))"
    by (simp add: container_handle_bash_command_def)
next
  fix pre inner post
  assume a: "response = pre @ open_tag (ascii ''bash'') @ inner @ close_tag (ascii ''bash'') @ post
        \<and> \<not> sublist (open_tag (ascii ''bash'')) (pre @ butlast (open_tag (ascii ''bash'')))
        \<and> \<not> sublist (close_tag (ascii ''bash'')) (inner @ butlast (close_tag (ascii ''bash'')))
        \<and> strip inner \<noteq> []"
  then have "parse_tag response (ascii ''bash'') = Some (Inr (strip inner))"
    using parse_tag_first [OF bash_plain] by blast
  with a have "container_handle_bash_command build logged cur_round response tool =
     Some (Inr (build (format_bash_execution_result (execute tool (strip inner))), logged))"
    by (simp add: handle_command)
  then show "container_handle_bash_command build logged cur_round response tool
            = (let process = execute tool (strip inner) in
               Some (Inr (build (ascii ''<bash>\<newline>'' @ args process
                                 @ ascii ''\<newline></bash>\<newline><return code>\<newline>''
                                 @ str_int (returncode process)
                                 @ ascii ''\<newline></return code>\<newline><stdout>\<newline>''
                                 @ stdout process
                                 @ ascii ''\<newline></stdout>\<newline><stderr>\<newline>''
                                 @ stderr process
                                 @ ascii ''\<newline></stderr>\<newline>''),
                          logged)))"
    by (simp add: format_bash_execution_result_def Let_def ascii_def)
next
  fix pre inner post
  assume a: "response = pre @ open_tag (ascii ''bash'') @ inner @ close_tag (ascii ''bash'') @ post
        \<and> \<not> sublist (open_tag (ascii ''bash'')) (pre @ butlast (open_tag (ascii ''bash'')))
        \<and> \<not> sublist (close_tag (ascii ''bash'')) (inner @ butlast (close_tag (ascii ''bash'')))
        \<and> strip inner = []"
  then have "parse_tag response (ascii ''bash'') = Some (Inr (strip inner))"
    using parse_tag_first [OF bash_plain] by blast
  with a have "parse_tag response (ascii ''bash'') = Some (Inr [])" by simp
  then show "container_handle_bash_command build logged cur_round response tool
            = Some (Inr (build (ascii ''No bash command received, Please follow the interaction protocols:\<newline>''
                                @ tutorial tool),
                         logged @ [(WARNING, ascii ''ROUND '' @ str_int cur_round
                                    @ ascii '' No BASH command from LLM response: '' @ response)]))"
    by (rule handle_no_command)
next
  assume "\<nexists>pre inner post.
         response = pre @ open_tag (ascii ''bash'') @ inner @ close_tag (ascii ''bash'') @ post"
  with bash_plain have "parse_tag response (ascii ''bash'') = Some (Inr [])"
    by (rule parse_tag_absent)
  then show "container_handle_bash_command build logged cur_round response tool
            = Some (Inr (build (ascii ''No bash command received, Please follow the interaction protocols:\<newline>''
                                @ tutorial tool),
                         logged @ [(WARNING, ascii ''ROUND '' @ str_int cur_round
                                    @ ascii '' No BASH command from LLM response: '' @ response)]))"
    by (rule handle_no_command)
qed

theorem container_handle_bash_command_round_witness:
  "container_handle_bash_command (\<lambda>text. text) [] 3 (ascii ''Run <bash> ls </bash>'')
     \<lparr>execute = (\<lambda>command. \<lparr>args = command, returncode = 2, stdout = [], stderr = ascii ''denied''\<rparr>),
      tutorial = ascii ''usage''\<rparr>
   = Some (Inr (ascii ''<bash>\<newline>ls\<newline></bash>\<newline><return code>\<newline>2\<newline></return code>\<newline><stdout>\<newline>\<newline></stdout>\<newline><stderr>\<newline>denied\<newline></stderr>\<newline>'', []))"
proof -
  let ?tool = "\<lparr>execute = (\<lambda>command. \<lparr>args = command, returncode = 2, stdout = [], stderr = ascii ''denied''\<rparr>),
      tutorial = ascii ''usage''\<rparr>"
  have d: "ascii ''Run <bash> ls </bash>''
      = ascii ''Run '' @ open_tag (ascii ''bash'') @ ascii '' ls '' @ close_tag (ascii ''bash'') @ []"
    by (simp add: ascii_def open_tag_def close_tag_def)
  have f1: "\<not> sublist (open_tag (ascii ''bash'')) (ascii ''Run '' @ butlast (open_tag (ascii ''bash'')))"
    by (simp add: ascii_def open_tag_def sublist_Cons_right)
  have f2: "\<not> sublist (close_tag (ascii ''bash''))
               (ascii '' ls '' @ butlast (close_tag (ascii ''bash'')))"
    by (simp add: ascii_def close_tag_def sublist_Cons_right)
  have st: "strip (ascii '' ls '') = ascii ''ls''"
    by (simp add: ascii_def strip_def is_whitespace_def)
  then have ne: "strip (ascii '' ls '') \<noteq> []" by (simp add: ascii_def)
  from container_handle_bash_command_round
    [of "\<lambda>text. text" "[]" 3 "ascii ''Run <bash> ls </bash>''" ?tool]
  have "container_handle_bash_command (\<lambda>text. text) [] 3 (ascii ''Run <bash> ls </bash>'') ?tool
            = (let process = execute ?tool (strip (ascii '' ls '')) in
               Some (Inr ((ascii ''<bash>\<newline>'' @ args process
                                 @ ascii ''\<newline></bash>\<newline><return code>\<newline>''
                                 @ str_int (returncode process)
                                 @ ascii ''\<newline></return code>\<newline><stdout>\<newline>''
                                 @ stdout process
                                 @ ascii ''\<newline></stdout>\<newline><stderr>\<newline>''
                                 @ stderr process
                                 @ ascii ''\<newline></stderr>\<newline>''),
                          [])))"
    using d f1 f2 ne by blast
  then show ?thesis
    by (simp add: str_int_def str_nat.simps ascii_def strip_def is_whitespace_def)
qed

section \<open>Properties of the scheduling\<close>



lemma run_sequentially_returns:
  assumes "\<forall>config\<in>set configs. \<exists>r. run_experiments pipeline (fst config) (snd config) = Inr r"
  shows "\<exists>results. run_sequentially pipeline configs (rs, ps) = Inr (rs @ results, ps @ results)
           \<and> map Inr results = map (\<lambda>config. run_experiments pipeline (fst config) (snd config)) configs"
  using assms
proof (induction configs arbitrary: rs ps)
  case Nil
  then show ?case by simp
next
  case (Cons config rest)
  then obtain r where r: "run_experiments pipeline (fst config) (snd config) = Inr r" by auto
  from Cons.prems have "\<forall>config\<in>set rest. \<exists>r. run_experiments pipeline (fst config) (snd config) = Inr r"
    by simp
  from Cons.IH [OF this, of "rs @ [r]" "ps @ [r]"] obtain results where
    "run_sequentially pipeline rest (rs @ [r], ps @ [r]) = Inr ((rs @ [r]) @ results, (ps @ [r]) @ results)"
    and "map Inr results = map (\<lambda>config. run_experiments pipeline (fst config) (snd config)) rest"
    by blast
  with r have "run_sequentially pipeline (config # rest) (rs, ps) = Inr (rs @ (r # results), ps @ (r # results))
      \<and> map Inr (r # results) = map (\<lambda>config. run_experiments pipeline (fst config) (snd config)) (config # rest)"
    by simp
  then show ?case by blast
qed

lemma time_sleep_returns:
  "0 \<le> d \<Longrightarrow> d \<le> 9223372036 \<Longrightarrow> os_sleep d = None \<Longrightarrow> time_sleep os_sleep d = None"
  by (simp add: time_sleep_def)

lemma submit_all_returns:
  "time_sleep os_sleep d = None \<Longrightarrow>
   submit_all os_sleep d configs tasks = Inr (tasks @ map (\<lambda>c. (c, Pending)) configs)"
  by (induction configs arbitrary: tasks) simp_all

lemma tasks_done_empty: "map (\<lambda>c. (c, Pending)) configs = tasks_done pipeline configs {}"
  unfolding tasks_done_def by (rule nth_equalityI) simp_all

lemma length_tasks_done: "length (tasks_done pipeline configs D) = length configs"
  by (simp add: tasks_done_def)

lemma worker_completes_done:
  "\<exists>printed'. worker_completes pipeline i (tasks_done pipeline configs D, printed)
     = (tasks_done pipeline configs (insert i D), printed')"
proof (cases "i < length configs")
  case False
  then have "tasks_done pipeline configs (insert i D) = tasks_done pipeline configs D"
    by (simp add: tasks_done_def)
  with False show ?thesis by (simp add: worker_completes_def tasks_done_def)
next
  case True
  have upd: "(tasks_done pipeline configs D) [i := (configs ! i, settled pipeline (configs ! i))]
          = tasks_done pipeline configs (insert i D)"
    using True unfolding tasks_done_def
    by (intro nth_equalityI) (auto simp: nth_list_update)
  have same: "settled pipeline (configs ! i) = Pending \<Longrightarrow>
      tasks_done pipeline configs (insert i D) = tasks_done pipeline configs D"
    unfolding tasks_done_def by (intro nth_equalityI) auto
  show ?thesis
  proof (cases "i \<in> D \<and> settled pipeline (configs ! i) \<noteq> Pending")
    case taken: True
    then have "insert i D = D" by auto
    moreover from True taken have "tasks_done pipeline configs D ! i = (configs ! i, settled pipeline (configs ! i))"
      by (simp add: tasks_done_def)
    ultimately show ?thesis using True taken
      by (cases "settled pipeline (configs ! i)") (simp_all add: worker_completes_def length_tasks_done)
  next
    case False
    then have pend: "tasks_done pipeline configs D ! i = (configs ! i, Pending)"
      using True by (auto simp: tasks_done_def)
    show ?thesis
    proof (cases "run_experiments pipeline (fst (configs ! i)) (snd (configs ! i))")
      case (Inr r)
      then have "settled pipeline (configs ! i) = Ready r" by (simp add: settled_def)
      with upd have "(tasks_done pipeline configs D) [i := (configs ! i, Ready r)]
          = tasks_done pipeline configs (insert i D)" by simp
      with True pend Inr show ?thesis by (simp add: worker_completes_def length_tasks_done)
    next
      case (Inl e)
      show ?thesis
      proof (cases "is_Exception e")
        case True': True
        with Inl have "settled pipeline (configs ! i) = Failed e" by (simp add: settled_def)
        with upd have "(tasks_done pipeline configs D) [i := (configs ! i, Failed e)]
          = tasks_done pipeline configs (insert i D)" by simp
        with True pend Inl True' show ?thesis by (simp add: worker_completes_def length_tasks_done)
      next
        case False': False
        with Inl have "settled pipeline (configs ! i) = Pending" by (simp add: settled_def)
        then have "tasks_done pipeline configs (insert i D) = tasks_done pipeline configs D"
          by (rule same)
        with True pend Inl False' show ?thesis by (simp add: worker_completes_def length_tasks_done)
      qed
    qed
  qed
qed

lemma fold_worker_completes:
  "\<exists>printed'. fold (worker_completes pipeline) schedule (tasks_done pipeline configs D, printed)
     = (tasks_done pipeline configs (D \<union> set schedule), printed')"
proof (induction schedule arbitrary: D printed)
  case Nil
  then show ?case by simp
next
  case (Cons i schedule)
  obtain p1 where "worker_completes pipeline i (tasks_done pipeline configs D, printed)
     = (tasks_done pipeline configs (insert i D), p1)"
    using worker_completes_done by blast
  moreover obtain p2 where
    "fold (worker_completes pipeline) schedule (tasks_done pipeline configs (insert i D), p1)
     = (tasks_done pipeline configs (insert i D \<union> set schedule), p2)"
    using Cons.IH by blast
  ultimately show ?case by simp
qed

lemma gather_ready: "gather (map (\<lambda>r. (c r, Ready (f r))) xs) = Some (Inr (map f xs))"
  by (induction xs) simp_all

lemma gather_all_done:
  assumes "{..<length configs} \<subseteq> D"
    and "\<forall>config\<in>set configs. \<exists>r. run_experiments pipeline (fst config) (snd config) = Inr r"
  shows "\<exists>results. gather (tasks_done pipeline configs D) = Some (Inr results)
           \<and> map Inr results = map (\<lambda>config. run_experiments pipeline (fst config) (snd config)) configs"
proof -
  let ?f = "\<lambda>config. projr (run_experiments pipeline (fst config) (snd config))"
  have r: "run_experiments pipeline (fst config) (snd config) = Inr (?f config)"
    if "config \<in> set configs" for config
    using assms(2) that by auto
  have "tasks_done pipeline configs D = map (\<lambda>config. (config, Ready (?f config))) configs"
    unfolding tasks_done_def
  proof (rule nth_equalityI)
    show "length (map (\<lambda>i. (configs ! i, if i \<in> D then settled pipeline (configs ! i) else Pending))
            [0..<length configs]) = length (map (\<lambda>config. (config, Ready (?f config))) configs)"
      by simp
  next
    fix i
    assume "i < length (map (\<lambda>i. (configs ! i, if i \<in> D then settled pipeline (configs ! i) else Pending))
            [0..<length configs])"
    then have i: "i < length configs" by simp
    with assms(1) have "i \<in> D" by auto
    moreover have "settled pipeline (configs ! i) = Ready (?f (configs ! i))"
    proof -
      from i assms(2) obtain r' where
        "run_experiments pipeline (fst (configs ! i)) (snd (configs ! i)) = Inr r'"
        by (meson nth_mem)
      then show ?thesis by (simp add: settled_def)
    qed
    ultimately show "map (\<lambda>i. (configs ! i, if i \<in> D then settled pipeline (configs ! i) else Pending))
            [0..<length configs] ! i = map (\<lambda>config. (config, Ready (?f config))) configs ! i"
      using i by simp
  qed
  then have "gather (tasks_done pipeline configs D) = Some (Inr (map ?f configs))"
    by (simp add: gather_ready)
  moreover have "map Inr (map ?f configs)
      = map (\<lambda>config. run_experiments pipeline (fst config) (snd config)) configs"
    using r by simp
  ultimately show ?thesis by blast
qed

lemma run_all_sequential:
  assumes "\<forall>config\<in>set configs. \<exists>r. run_experiments pipeline (fst config) (snd config) = Inr r"
  shows "\<exists>results. run_all pipeline os_sleep 1 d schedule configs = Some (Inr (results, results))
           \<and> map Inr results = map (\<lambda>config. run_experiments pipeline (fst config) (snd config)) configs"
  using run_sequentially_returns [OF assms, of "[]" "[]"] by (simp add: run_all_def)

lemma run_all_pool:
  assumes "1 < P" and "time_sleep os_sleep d = None" and "{..<length configs} \<subseteq> set schedule"
    and "\<forall>config\<in>set configs. \<exists>r. run_experiments pipeline (fst config) (snd config) = Inr r"
  shows "\<exists>results printed. run_all pipeline os_sleep P d schedule configs = Some (Inr (results, printed))
           \<and> map Inr results = map (\<lambda>config. run_experiments pipeline (fst config) (snd config)) configs"
proof -
  have s: "submit_all os_sleep d configs [] = Inr (tasks_done pipeline configs {})"
    using assms(2) by (simp add: submit_all_returns tasks_done_empty)
  obtain printed where f: "fold (worker_completes pipeline) schedule (tasks_done pipeline configs {}, [])
     = (tasks_done pipeline configs ({} \<union> set schedule), printed)"
    using fold_worker_completes by blast
  from assms(3) have "{..<length configs} \<subseteq> {} \<union> set schedule" by simp
  from gather_all_done [OF this assms(4)] obtain results where
    "gather (tasks_done pipeline configs ({} \<union> set schedule)) = Some (Inr results)"
    and m: "map Inr results = map (\<lambda>config. run_experiments pipeline (fst config) (snd config)) configs"
    by blast
  with s f assms(1) have "run_all pipeline os_sleep P d schedule configs = Some (Inr (results, printed))"
    by (simp add: run_all_def)
  with m show ?thesis by blast
qed




lemma run_sequentially_Inr:
  "run_sequentially pipeline configs state = Inr state' \<Longrightarrow>
   \<forall>config\<in>set configs. \<exists>r. run_experiments pipeline (fst config) (snd config) = Inr r"
proof (induction configs arbitrary: state)
  case Nil
  then show ?case by simp
next
  case (Cons config rest)
  obtain rs ps where st: "state = (rs, ps)" by (cases state)
  with Cons.prems obtain r where r: "run_experiments pipeline (fst config) (snd config) = Inr r"
    and "run_sequentially pipeline rest (rs @ [r], ps @ [r]) = Inr state'"
    by (auto split: sum.splits)
  with Cons.IH show ?case by auto
qed

lemma gather_Inr:
  "gather tasks = Some (Inr results) \<Longrightarrow> \<forall>t\<in>set tasks. \<exists>r. snd t = Ready r"
  by (induction tasks arbitrary: results rule: gather.induct)
     (auto split: option.splits sum.splits)

lemma run_all_pool_Inr:
  assumes "1 < P"
    and "run_all pipeline os_sleep P d schedule configs = Some (Inr (results, printed))"
  shows "\<forall>config\<in>set configs. \<exists>r. run_experiments pipeline (fst config) (snd config) = Inr r"
proof
  fix config assume "config \<in> set configs"
  then obtain i where i: "i < length configs" and c: "config = configs ! i"
    by (auto simp: in_set_conv_nth)
  from assms obtain tasks where s: "submit_all os_sleep d configs [] = Inr tasks"
    by (auto simp: run_all_def split: sum.splits)
  have ts: "tasks = tasks_done pipeline configs {}"
  proof (cases "configs = []")
    case True
    with s show ?thesis by (simp add: tasks_done_def)
  next
    case False
    then obtain c0 rest where "configs = c0 # rest" by (cases configs) auto
    with s have "time_sleep os_sleep d = None" by (auto split: option.splits)
    then have "submit_all os_sleep d configs [] = Inr ([] @ map (\<lambda>c. (c, Pending)) configs)"
      by (rule submit_all_returns)
    with s have "tasks = map (\<lambda>c. (c, Pending)) configs" by simp
    then show ?thesis by (simp only: tasks_done_empty)
  qed
  obtain printed' where f: "fold (worker_completes pipeline) schedule (tasks_done pipeline configs {}, [])
     = (tasks_done pipeline configs ({} \<union> set schedule), printed')"
    using fold_worker_completes by blast
  with assms s ts have "gather (tasks_done pipeline configs ({} \<union> set schedule)) = Some (Inr results)"
    by (auto simp: run_all_def split: option.splits sum.splits)
  then have "\<forall>t\<in>set (tasks_done pipeline configs ({} \<union> set schedule)). \<exists>r. snd t = Ready r"
    by (rule gather_Inr)
  moreover from i have "tasks_done pipeline configs ({} \<union> set schedule) ! i
      \<in> set (tasks_done pipeline configs ({} \<union> set schedule))"
    by (simp add: length_tasks_done)
  ultimately obtain r where "snd (tasks_done pipeline configs ({} \<union> set schedule) ! i) = Ready r"
    by blast
  with i have "settled pipeline (configs ! i) = Ready r"
    by (auto simp: tasks_done_def split: if_splits)
  then show "\<exists>r. run_experiments pipeline (fst config) (snd config) = Inr r"
    unfolding c by (auto simp: settled_def split: sum.splits if_splits)
qed




text \<open>
  Claim C8, with the delay the code needs. For a delay from 0 to 9223372036 seconds that
  the operating system sleeps, the sequential branch returns a list of results exactly when
  the worker pool (more than one process, any schedule in which every task is taken) returns
  it: the same list, in content and order.
\<close>

theorem run_all_sequential_same:
  assumes "1 < NUM_EXP"
    and "0 \<le> delay_seconds" and "delay_seconds \<le> 9223372036" and "os_sleep delay_seconds = None"
    and "{..<length configs} \<subseteq> set schedule"
  shows "(\<exists>printed. run_all pipeline os_sleep 1 delay_seconds schedule' configs
                     = Some (Inr (results, printed)))
         \<longleftrightarrow> (\<exists>printed. run_all pipeline os_sleep NUM_EXP delay_seconds schedule configs
                         = Some (Inr (results, printed)))"
proof -
  have sl: "time_sleep os_sleep delay_seconds = None"
    using assms(2-4) by (rule time_sleep_returns)
  have both: "(\<exists>printed. run_all pipeline os_sleep 1 delay_seconds schedule' configs
                     = Some (Inr (results, printed)))
       \<and> (\<exists>printed. run_all pipeline os_sleep NUM_EXP delay_seconds schedule configs
                         = Some (Inr (results, printed)))"
    if ret: "\<forall>config\<in>set configs. \<exists>r. run_experiments pipeline (fst config) (snd config) = Inr r"
      and m: "map Inr results = map (\<lambda>config. run_experiments pipeline (fst config) (snd config)) configs"
  proof -
    from run_all_sequential [OF ret] obtain rs where
      1: "run_all pipeline os_sleep 1 delay_seconds schedule' configs = Some (Inr (rs, rs))"
      and m1: "map Inr rs = map (\<lambda>config. run_experiments pipeline (fst config) (snd config)) configs"
      by blast
    from run_all_pool [OF assms(1) sl assms(5) ret] obtain rp printed where
      2: "run_all pipeline os_sleep NUM_EXP delay_seconds schedule configs = Some (Inr (rp, printed))"
      and m2: "map Inr rp = map (\<lambda>config. run_experiments pipeline (fst config) (snd config)) configs"
      by blast
    from m m1 have "map Inr rs = (map Inr results :: (py_error + Result) list)" by simp
    then have "rs = results" by (simp add: inj_map_eq_map)
    moreover from m m2 have "map Inr rp = (map Inr results :: (py_error + Result) list)" by simp
    then have "rp = results" by (simp add: inj_map_eq_map)
    ultimately show ?thesis using 1 2 by blast
  qed
  show ?thesis
  proof
    assume "\<exists>printed. run_all pipeline os_sleep 1 delay_seconds schedule' configs
                     = Some (Inr (results, printed))"
    then obtain printed where
      a: "run_all pipeline os_sleep 1 delay_seconds schedule' configs = Some (Inr (results, printed))"
      by blast
    then have "run_sequentially pipeline configs ([], []) = Inr (results, printed)"
      by (simp add: run_all_def)
    then have ret: "\<forall>config\<in>set configs. \<exists>r. run_experiments pipeline (fst config) (snd config) = Inr r"
      by (rule run_sequentially_Inr)
    from run_all_sequential [OF ret, of os_sleep delay_seconds schedule'] a
    have "map Inr results = map (\<lambda>config. run_experiments pipeline (fst config) (snd config)) configs"
      by auto
    with ret both show "\<exists>printed. run_all pipeline os_sleep NUM_EXP delay_seconds schedule configs
                         = Some (Inr (results, printed))"
      by blast
  next
    assume "\<exists>printed. run_all pipeline os_sleep NUM_EXP delay_seconds schedule configs
                         = Some (Inr (results, printed))"
    then obtain printed where
      a: "run_all pipeline os_sleep NUM_EXP delay_seconds schedule configs = Some (Inr (results, printed))"
      by blast
    with assms(1) have ret: "\<forall>config\<in>set configs. \<exists>r. run_experiments pipeline (fst config) (snd config) = Inr r"
      by (rule run_all_pool_Inr)
    from run_all_pool [OF assms(1) sl assms(5) ret] a
    have "map Inr results = map (\<lambda>config. run_experiments pipeline (fst config) (snd config)) configs"
      by auto
    with ret both show "\<exists>printed. run_all pipeline os_sleep 1 delay_seconds schedule' configs
                     = Some (Inr (results, printed))"
      by blast
  qed
qed

theorem run_all_sequential_same_witness:
  "(\<exists>printed.
     run_all example_pipeline example_os_sleep 1 0 []
       [(example_benchmark_a, example_namespace), (example_benchmark_b, example_namespace)]
       = Some (Inr ([Result example_benchmark_a
                     (Failure (ascii ''Exception while running experiment: boom'')),
                   Result example_benchmark_b
                     (Aggregated \<lparr>max_line_coverage_diff = Finite 5,
                                  max_coverage_diff_sample = ascii ''out/02.c''\<rparr>)],
                    printed)))
   \<and> (\<exists>printed.
     run_all example_pipeline example_os_sleep 3 0 [1, 0]
       [(example_benchmark_a, example_namespace), (example_benchmark_b, example_namespace)]
       = Some (Inr ([Result example_benchmark_a
                     (Failure (ascii ''Exception while running experiment: boom'')),
                   Result example_benchmark_b
                     (Aggregated \<lparr>max_line_coverage_diff = Finite 5,
                                  max_coverage_diff_sample = ascii ''out/02.c''\<rparr>)],
                    printed)))"
proof -
  let ?configs = "[(example_benchmark_a, example_namespace), (example_benchmark_b, example_namespace)]"
  have sub: "{..<length ?configs} \<subseteq> set [1, 0 :: nat]" by auto
  have os: "example_os_sleep 0 = None" by (simp add: example_defs)
  have seq: "\<exists>printed.
     run_all example_pipeline example_os_sleep 1 0 [] ?configs
       = Some (Inr ([Result example_benchmark_a
                     (Failure (ascii ''Exception while running experiment: boom'')),
                   Result example_benchmark_b
                     (Aggregated \<lparr>max_line_coverage_diff = Finite 5,
                                  max_coverage_diff_sample = ascii ''out/02.c''\<rparr>)],
                    printed))"
    by (simp add: run_all_def run_experiments_def example_defs ascii_def)
  with run_all_sequential_same
    [where NUM_EXP = 3 and delay_seconds = 0 and os_sleep = example_os_sleep
       and pipeline = example_pipeline and configs = ?configs and schedule = "[1, 0]"
       and schedule' = "[]", OF _ _ _ os sub]
  show ?thesis by simp
qed

text \<open>
  The claim as stated fails for a delay that \<open>time.sleep\<close> refuses: the sequential branch
  never sleeps and returns its results, the pool branch raises at the first sleep, for the
  delay \<open>-1\<close> and for the delay 9223372037.
\<close>

theorem run_all_sequential_differs_counterexample:
  "run_all example_pipeline example_os_sleep 1 (delay (example_namespace\<lparr>delay := - 1\<rparr>)) [0]
     [(example_benchmark_a, example_namespace\<lparr>delay := - 1\<rparr>)]
     = Some (Inr ([Result example_benchmark_a
                     (Failure (ascii ''Exception while running experiment: boom''))],
                  [Result example_benchmark_a
                     (Failure (ascii ''Exception while running experiment: boom''))]))
   \<and> run_all example_pipeline example_os_sleep 2 (delay (example_namespace\<lparr>delay := - 1\<rparr>)) [0]
     [(example_benchmark_a, example_namespace\<lparr>delay := - 1\<rparr>)]
     = Some (Inl (ValueError ''sleep length must be non-negative''))
   \<and> run_all example_pipeline example_os_sleep 2
       (delay (example_namespace\<lparr>delay := 9223372037\<rparr>)) [0]
       [(example_benchmark_a, example_namespace\<lparr>delay := 9223372037\<rparr>)]
     = Some (Inl (OverflowError ''timestamp too large to convert to C _PyTime_t''))"
  by (simp add: run_all_def time_sleep_def run_experiments_def example_defs ascii_def)





section \<open>Properties of the argument checks and the config expansion\<close>

lemma temperature_check:
  "float_truthy t \<and> \<not> (float_le t (Finite 2) \<and> float_le (Finite 0) t)
   \<longleftrightarrow> \<not> (float_le (Finite 0) t \<and> float_le t (Finite 2))"
  by (cases t) auto

lemma parse_args_accepts:
  assumes "truthy (benchmark_yaml ns) \<noteq> truthy (benchmarks_directory ns)"
    and "cloud_experiment_name ns \<noteq> [] \<longleftrightarrow> cloud_experiment_bucket ns \<noteq> []"
    and "float_le (Finite 0) (temperature ns) \<and> float_le (temperature ns) (Finite 2)"
    and "isdir (template_directory ns)"
    and "0 \<le> num_samples ns"
    and "truthy (benchmark_yaml ns) \<longrightarrow>
           endswith (the (benchmark_yaml ns)) (ascii ''.yaml'')
           \<or> endswith (the (benchmark_yaml ns)) (ascii ''yml'')"
  shows "parse_args isdir ns = Inr ns"
proof -
  from assms(3) have "\<not> (float_truthy (temperature ns)
      \<and> \<not> (float_le (temperature ns) (Finite 2) \<and> float_le (Finite 0) (temperature ns)))"
    by (simp add: temperature_check)
  with assms show ?thesis unfolding parse_args_def by auto
qed

lemma parse_args_rejects_cases:
  assumes "\<not> (truthy (benchmark_yaml ns) \<noteq> truthy (benchmarks_directory ns))
    \<or> \<not> (cloud_experiment_name ns \<noteq> [] \<longleftrightarrow> cloud_experiment_bucket ns \<noteq> [])
    \<or> \<not> (float_le (Finite 0) (temperature ns) \<and> float_le (temperature ns) (Finite 2))
    \<or> \<not> isdir (template_directory ns)
    \<or> num_samples ns < 0
    \<or> (truthy (benchmark_yaml ns)
        \<and> \<not> (endswith (the (benchmark_yaml ns)) (ascii ''.yaml'')
             \<or> endswith (the (benchmark_yaml ns)) (ascii ''yml'')))"
  shows "\<exists>e. parse_args isdir ns = Inl e"
proof -
  have t: "\<not> (float_le (Finite 0) (temperature ns) \<and> float_le (temperature ns) (Finite 2))
     \<Longrightarrow> float_truthy (temperature ns)
      \<and> \<not> (float_le (temperature ns) (Finite 2) \<and> float_le (Finite 0) (temperature ns))"
    using temperature_check [of "temperature ns"] by blast
  show ?thesis
    using assms t unfolding parse_args_def by (auto simp del: float_le.simps float_truthy.simps)
qed

lemma main_stops:
  "parse_args isdir ns = Inl e \<Longrightarrow>
   main isdir listdir from_yaml pipeline os_sleep env k NUM_EXP schedule ns = Some (Inl e)"
  by (simp add: main_def)

lemma endswith_dot_yml: "endswith s (ascii ''.yml'') \<Longrightarrow> endswith s (ascii ''yml'')"
proof -
  assume a: "endswith s (ascii ''.yml'')"
  have "ascii ''.yml'' = [46] @ ascii ''yml''" by (simp add: ascii_def)
  with a have "suffix ([46] @ ascii ''yml'') s" by (simp only: endswith_def)
  then have "suffix (ascii ''yml'') s" by (rule suffix_appendD)
  then show ?thesis by (simp only: endswith_def)
qed

text \<open>
  Claim C7, as the code has it. Parsing aborts, and \<open>main\<close> ends with the same exception
  whatever the collaborators are (no config is built and no experiment is run), when both
  benchmark sources are given, when neither is given, when a cloud experiment name comes
  without a bucket or a bucket without a name, when the temperature is not within 0 and 2,
  when the template directory does not exist, when the sample count is negative, or when
  the benchmark file's name ends neither in \<open>.yaml\<close> nor in \<open>yml\<close>. When exactly one source
  is given, the cloud name and bucket come together or not at all, the temperature is
  within 0 and 2, the template directory exists, the sample count is positive and a given
  benchmark file's name ends in \<open>.yaml\<close> or \<open>.yml\<close>, parsing returns the namespace.
\<close>

theorem parse_args_validation:
  "((truthy (benchmark_yaml ns) \<and> truthy (benchmarks_directory ns))
    \<or> (\<not> truthy (benchmark_yaml ns) \<and> \<not> truthy (benchmarks_directory ns))
    \<or> (cloud_experiment_name ns \<noteq> [] \<and> cloud_experiment_bucket ns = [])
    \<or> (cloud_experiment_name ns = [] \<and> cloud_experiment_bucket ns \<noteq> [])
    \<or> \<not> (float_le (Finite 0) (temperature ns) \<and> float_le (temperature ns) (Finite 2))
    \<or> \<not> isdir (template_directory ns)
    \<or> num_samples ns < 0
    \<or> (truthy (benchmark_yaml ns)
        \<and> \<not> (endswith (the (benchmark_yaml ns)) (ascii ''.yaml'')
             \<or> endswith (the (benchmark_yaml ns)) (ascii ''yml'')))
    \<longrightarrow> (\<exists>e. parse_args isdir ns = Inl e
             \<and> main isdir listdir from_yaml pipeline os_sleep env k NUM_EXP schedule ns = Some (Inl e)))
   \<and> (truthy (benchmark_yaml ns) \<noteq> truthy (benchmarks_directory ns)
      \<and> (cloud_experiment_name ns \<noteq> [] \<longleftrightarrow> cloud_experiment_bucket ns \<noteq> [])
      \<and> float_le (Finite 0) (temperature ns) \<and> float_le (temperature ns) (Finite 2)
      \<and> isdir (template_directory ns)
      \<and> 0 < num_samples ns
      \<and> (truthy (benchmark_yaml ns) \<longrightarrow>
           endswith (the (benchmark_yaml ns)) (ascii ''.yaml'')
           \<or> endswith (the (benchmark_yaml ns)) (ascii ''.yml''))
      \<longrightarrow> parse_args isdir ns = Inr ns)"
proof (intro conjI impI)
  assume "(truthy (benchmark_yaml ns) \<and> truthy (benchmarks_directory ns))
    \<or> (\<not> truthy (benchmark_yaml ns) \<and> \<not> truthy (benchmarks_directory ns))
    \<or> (cloud_experiment_name ns \<noteq> [] \<and> cloud_experiment_bucket ns = [])
    \<or> (cloud_experiment_name ns = [] \<and> cloud_experiment_bucket ns \<noteq> [])
    \<or> \<not> (float_le (Finite 0) (temperature ns) \<and> float_le (temperature ns) (Finite 2))
    \<or> \<not> isdir (template_directory ns)
    \<or> num_samples ns < 0
    \<or> (truthy (benchmark_yaml ns)
        \<and> \<not> (endswith (the (benchmark_yaml ns)) (ascii ''.yaml'')
             \<or> endswith (the (benchmark_yaml ns)) (ascii ''yml'')))"
  then have "\<not> (truthy (benchmark_yaml ns) \<noteq> truthy (benchmarks_directory ns))
    \<or> \<not> (cloud_experiment_name ns \<noteq> [] \<longleftrightarrow> cloud_experiment_bucket ns \<noteq> [])
    \<or> \<not> (float_le (Finite 0) (temperature ns) \<and> float_le (temperature ns) (Finite 2))
    \<or> \<not> isdir (template_directory ns)
    \<or> num_samples ns < 0
    \<or> (truthy (benchmark_yaml ns)
        \<and> \<not> (endswith (the (benchmark_yaml ns)) (ascii ''.yaml'')
             \<or> endswith (the (benchmark_yaml ns)) (ascii ''yml'')))"
    by blast
  then obtain e where "parse_args isdir ns = Inl e"
    using parse_args_rejects_cases by blast
  then show "\<exists>e. parse_args isdir ns = Inl e
             \<and> main isdir listdir from_yaml pipeline os_sleep env k NUM_EXP schedule ns = Some (Inl e)"
    by (simp add: main_stops)
next
  assume "truthy (benchmark_yaml ns) \<noteq> truthy (benchmarks_directory ns)
      \<and> (cloud_experiment_name ns \<noteq> [] \<longleftrightarrow> cloud_experiment_bucket ns \<noteq> [])
      \<and> float_le (Finite 0) (temperature ns) \<and> float_le (temperature ns) (Finite 2)
      \<and> isdir (template_directory ns)
      \<and> 0 < num_samples ns
      \<and> (truthy (benchmark_yaml ns) \<longrightarrow>
           endswith (the (benchmark_yaml ns)) (ascii ''.yaml'')
           \<or> endswith (the (benchmark_yaml ns)) (ascii ''.yml''))"
  then have a1: "truthy (benchmark_yaml ns) \<noteq> truthy (benchmarks_directory ns)"
    and a2: "cloud_experiment_name ns \<noteq> [] \<longleftrightarrow> cloud_experiment_bucket ns \<noteq> []"
    and a3: "float_le (Finite 0) (temperature ns) \<and> float_le (temperature ns) (Finite 2)"
    and a4: "isdir (template_directory ns)"
    and a5: "0 < num_samples ns"
    and a6: "truthy (benchmark_yaml ns) \<longrightarrow>
           endswith (the (benchmark_yaml ns)) (ascii ''.yaml'')
           \<or> endswith (the (benchmark_yaml ns)) (ascii ''.yml'')"
    by blast+
  from a5 have a5': "0 \<le> num_samples ns" by simp
  from a6 have a6': "truthy (benchmark_yaml ns) \<longrightarrow>
           endswith (the (benchmark_yaml ns)) (ascii ''.yaml'')
           \<or> endswith (the (benchmark_yaml ns)) (ascii ''yml'')"
    using endswith_dot_yml by blast
  from a1 a2 a3 a4 a5' a6' show "parse_args isdir ns = Inr ns"
    by (rule parse_args_accepts)
qed

theorem parse_args_validation_witness:
  "(\<exists>e. parse_args ((=) (ascii ''prompts''))
          (example_namespace\<lparr>benchmark_yaml := Some (ascii ''one.yaml'')\<rparr>) = Inl e)
   \<and> parse_args ((=) (ascii ''prompts'')) example_namespace = Inr example_namespace"
proof -
  let ?both = "(example_namespace\<lparr>benchmark_yaml := Some (ascii ''one.yaml'')\<rparr>)"
  have both: "truthy (benchmark_yaml ?both) \<and> truthy (benchmarks_directory ?both)"
    by (simp add: example_defs ascii_def)
  have ok: "truthy (benchmark_yaml example_namespace) \<noteq> truthy (benchmarks_directory example_namespace)
      \<and> (cloud_experiment_name example_namespace \<noteq> [] \<longleftrightarrow> cloud_experiment_bucket example_namespace \<noteq> [])
      \<and> float_le (Finite 0) (temperature example_namespace)
      \<and> float_le (temperature example_namespace) (Finite 2)
      \<and> ascii ''prompts'' = template_directory example_namespace
      \<and> 0 < num_samples example_namespace
      \<and> (truthy (benchmark_yaml example_namespace) \<longrightarrow>
           endswith (the (benchmark_yaml example_namespace)) (ascii ''.yaml'')
           \<or> endswith (the (benchmark_yaml example_namespace)) (ascii ''.yml''))"
    by (simp add: example_defs ascii_def)
  from parse_args_validation [of ?both "(=) (ascii ''prompts'')"] both
  have 1: "\<exists>e. parse_args ((=) (ascii ''prompts'')) ?both = Inl e"
    by blast
  from parse_args_validation [of example_namespace "(=) (ascii ''prompts'')"] ok
  have 2: "parse_args ((=) (ascii ''prompts'')) example_namespace = Inr example_namespace"
    by blast
  from 1 2 show ?thesis by blast
qed

text \<open>
  The claim as stated fails in its last part: none of the conditions it lists holds for a
  single benchmark file named \<open>bench.txt\<close> (one source, no cloud options, temperature
  0.4, existing template directory, five samples), and parsing aborts on the extension.
\<close>

theorem parse_args_extension_counterexample:
  "parse_args ((=) (ascii ''prompts''))
     (example_namespace\<lparr>benchmark_yaml := Some (ascii ''bench.txt''),
                         benchmarks_directory := None\<rparr>)
   = Inl (AssertionError ''--benchmark-yaml needs to take an YAML file.'')"
  by (simp add: parse_args_def example_defs ascii_def endswith_def suffix_def)

text \<open>
  The sample count 0 passes the check: the assertion on the sample count is guarded by the
  truth value of the count.
\<close>

lemma parse_args_zero_samples:
  "parse_args ((=) (ascii ''prompts'')) (example_namespace\<lparr>num_samples := 0\<rparr>)
   = Inr (example_namespace\<lparr>num_samples := 0\<rparr>)"
  by (simp add: parse_args_def example_defs ascii_def endswith_def suffix_def)

text \<open>
  Claim C9, the code on a directory that holds \<open>a.yaml\<close>, \<open>notes.txt\<close> and \<open>data.xyml\<close>:
  the test \<open>file.endswith('yml')\<close> has no dot, so the configs of \<open>data.xyml\<close> are
  produced beside those of \<open>a.yaml\<close>.
\<close>

theorem get_experiment_configs_yml_suffix:
  "get_experiment_configs
     (\<lambda>directory. Inr [ascii ''a.yaml'', ascii ''notes.txt'', ascii ''data.xyml''])
     (\<lambda>file. [example_benchmark_a\<lparr>id' := file\<rparr>])
     example_namespace
   = Inr [(example_benchmark_a\<lparr>id' := ascii ''benchmarks/a.yaml''\<rparr>, example_namespace),
          (example_benchmark_a\<lparr>id' := ascii ''benchmarks/data.xyml''\<rparr>, example_namespace)]"
  by (simp add: get_experiment_configs_def os_path_join_def example_defs ascii_def
      endswith_def startswith_def suffix_def Let_def)

section \<open>Properties of the promotion\<close>

lemma save_loop_prefix:
  "save_loop env label rand_id results uploaded = (uploaded', raised) \<Longrightarrow>
   \<exists>taken. uploaded' = uploaded @ taken
     \<and> prefix taken (concat (map (promotion env label rand_id) results))
     \<and> (raised = None \<longrightarrow> taken = concat (map (promotion env label rand_id) results))"
proof (induction results arbitrary: uploaded)
  case Nil
  then show ?case by simp
next
  case (Cons r rest)
  show ?case
  proof (cases "result r")
    case (Failure msg)
    with Cons.prems have "save_loop env label rand_id rest uploaded = (uploaded', raised)"
      by simp
    from Cons.IH [OF this] Failure show ?thesis by (simp add: promotion_def)
  next
    case (Aggregated a)
    show ?thesis
    proof (cases "float_lt (Finite 0) (max_line_coverage_diff a)")
      case False
      with Aggregated Cons.prems
      have "save_loop env label rand_id rest uploaded = (uploaded', raised)"
        by (simp add: Let_def)
      from Cons.IH [OF this] Aggregated False show ?thesis by (simp add: promotion_def)
    next
      case True
      let ?name = "save_name_of env label rand_id r a"
      let ?file = "max_coverage_diff_sample a"
      have p: "promotion env label rand_id r = [(?name, ?file)]"
        using Aggregated True by (simp add: promotion_def save_name_of_def Let_def)
      show ?thesis
      proof (cases "upload env ?name ?file")
        case (Some e)
        with Aggregated True Cons.prems have "uploaded' = uploaded" "raised = Some e"
          by (simp_all add: Let_def)
        then show ?thesis by simp
      next
        case None
        with Aggregated True Cons.prems
        have "save_loop env label rand_id rest (uploaded @ [(?name, ?file)]) = (uploaded', raised)"
          by (simp add: Let_def)
        from Cons.IH [OF this] obtain taken where
          t: "uploaded' = (uploaded @ [(?name, ?file)]) @ taken"
          "prefix taken (concat (map (promotion env label rand_id) rest))"
          "raised = None \<longrightarrow> taken = concat (map (promotion env label rand_id) rest)"
          by blast
        from t p have "uploaded' = uploaded @ ((?name, ?file) # taken)
          \<and> prefix ((?name, ?file) # taken) (concat (map (promotion env label rand_id) (r # rest)))
          \<and> (raised = None \<longrightarrow> (?name, ?file) # taken = concat (map (promotion env label rand_id) (r # rest)))"
          by simp
        then show ?thesis by blast
      qed
    qed
  qed
qed

lemma save_loop_exact:
  "save_loop env label rand_id results uploaded =
     (uploaded @ takeWhile (\<lambda>(name, file). upload env name file = None)
                   (concat (map (promotion env label rand_id) results)),
      case dropWhile (\<lambda>(name, file). upload env name file = None)
             (concat (map (promotion env label rand_id) results)) of
        [] \<Rightarrow> None
      | (name, file) # _ \<Rightarrow> upload env name file)"
proof (induction results arbitrary: uploaded)
  case Nil
  then show ?case by simp
next
  case (Cons r rest)
  show ?case
  proof (cases "result r")
    case (Failure msg)
    then have "promotion env label rand_id r = []" by (simp add: promotion_def)
    with Failure Cons.IH [of uploaded] show ?thesis by simp
  next
    case (Aggregated a)
    show ?thesis
    proof (cases "float_lt (Finite 0) (max_line_coverage_diff a)")
      case False
      with Aggregated have "promotion env label rand_id r = []" by (simp add: promotion_def)
      with Aggregated False Cons.IH [of uploaded] show ?thesis by (simp add: Let_def)
    next
      case True
      let ?name = "save_name_of env label rand_id r a"
      let ?file = "max_coverage_diff_sample a"
      have p: "promotion env label rand_id r = [(?name, ?file)]"
        using Aggregated True by (simp add: promotion_def save_name_of_def Let_def)
      show ?thesis
      proof (cases "upload env ?name ?file")
        case (Some e)
        with Aggregated True p show ?thesis by (simp add: Let_def)
      next
        case None
        with Aggregated True p Cons.IH [of "uploaded @ [(?name, ?file)]"] show ?thesis
          by (simp add: Let_def)
      qed
    qed
  qed
qed

lemma save_loop_accepted:
  "\<forall>name file. upload env name file = None \<Longrightarrow>
   snd (save_loop env label rand_id results uploaded) = None"
proof (induction results arbitrary: uploaded)
  case Nil
  then show ?case by simp
next
  case (Cons r rest)
  then show ?case by (cases "result r") (simp_all add: Let_def)
qed

lemma splitext_append: "fst (splitext p) @ snd (splitext p) = p"
  by (simp add: splitext_def Let_def)

lemma save_best_target_eq:
  "save_best_target env k results exp_name =
     (save_loop env (if exp_name = [] then today env @ ascii ''-'' @ hostname env else exp_name)
        (takeWhile (\<lambda>c. c \<noteq> 45) (uuid4 env k)) results [], Suc k)"
  by (simp add: save_best_target_def Let_def)

lemma promotion_abs:
  "(\<lambda>r. case result r of
          Failure _ \<Rightarrow> []
        | Aggregated aggregated \<Rightarrow>
            if float_lt (Finite 0) (max_line_coverage_diff aggregated)
            then [(ascii ''llm_generated_targets/'' @ project (benchmark r) @ ascii ''/''
                          @ function_name (benchmark r) @ ascii ''-''
                          @ str_float env (max_line_coverage_diff aggregated)
                          @ ascii ''-'' @ label @ ascii ''-'' @ rand_id
                          @ snd (splitext (max_coverage_diff_sample aggregated)),
                   max_coverage_diff_sample aggregated)]
            else []) = promotion env label rand_id"
  by (rule ext) (simp add: promotion_def)

text \<open>
  Claim C6, as the code has it. \<open>_save_best_target\<close> goes through the results in their
  order; the uploads it calls for are one for each result that is an aggregated result with
  a coverage differential greater than zero, and none for a differential of zero or less or
  for a failure. The loop has no handler, so the first upload that raises ends it: the
  uploads made are those called for before the first one that the storage client refuses,
  and the exception of that one leaves the function. When no upload raises, every upload
  called for is made. The name of an upload is made of the project, the function name, the
  coverage differential, the run label (the experiment name, or the date and the host name
  when it is empty), the random suffix and the extension that \<open>os.path.splitext\<close> cuts from
  the end of the file name.
\<close>

theorem save_best_target_promotes:
  "(case fst (save_best_target env k results exp_name) of
      (uploaded, raised) \<Rightarrow>
        (let rand_id = takeWhile (\<lambda>c. c \<noteq> 45) (uuid4 env k);
             label = (if exp_name = [] then today env @ ascii ''-'' @ hostname env else exp_name);
             promoted = concat (map (\<lambda>r. case result r of
                    Failure _ \<Rightarrow> []
                  | Aggregated aggregated \<Rightarrow>
                      if float_lt (Finite 0) (max_line_coverage_diff aggregated)
                      then [(ascii ''llm_generated_targets/'' @ project (benchmark r) @ ascii ''/''
                          @ function_name (benchmark r) @ ascii ''-''
                          @ str_float env (max_line_coverage_diff aggregated)
                          @ ascii ''-'' @ label @ ascii ''-'' @ rand_id
                          @ snd (splitext (max_coverage_diff_sample aggregated)),
                             max_coverage_diff_sample aggregated)]
                      else []) results)
         in uploaded = takeWhile (\<lambda>(name, file). upload env name file = None) promoted
            \<and> raised = (case dropWhile (\<lambda>(name, file). upload env name file = None) promoted of
                          [] \<Rightarrow> None
                        | (name, file) # _ \<Rightarrow> upload env name file)
            \<and> prefix uploaded promoted
            \<and> (raised = None \<longrightarrow> uploaded = promoted)
            \<and> ((\<forall>name file. upload env name file = None) \<longrightarrow> raised = None)))
   \<and> (\<forall>best_target. fst (splitext best_target) @ snd (splitext best_target) = best_target)"
proof -
  let ?label = "if exp_name = [] then today env @ ascii ''-'' @ hostname env else exp_name"
  let ?rid = "takeWhile (\<lambda>c. c \<noteq> 45) (uuid4 env k)"
  obtain uploaded raised where sl: "save_loop env ?label ?rid results [] = (uploaded, raised)"
    by (cases "save_loop env ?label ?rid results []") blast
  from save_loop_prefix [OF sl]
  have 1: "prefix uploaded (concat (map (promotion env ?label ?rid) results))"
    and 2: "raised = None \<longrightarrow> uploaded = concat (map (promotion env ?label ?rid) results)"
    by auto
  have 3: "(\<forall>name file. upload env name file = None) \<longrightarrow> raised = None"
    using save_loop_accepted [of env ?label ?rid results "[]"] sl by auto
  from save_loop_exact [of env ?label ?rid results "[]"] sl
  have 4: "uploaded = takeWhile (\<lambda>(name, file). upload env name file = None)
                        (concat (map (promotion env ?label ?rid) results))"
    and 5: "raised = (case dropWhile (\<lambda>(name, file). upload env name file = None)
                             (concat (map (promotion env ?label ?rid) results)) of
                        [] \<Rightarrow> None
                      | (name, file) # _ \<Rightarrow> upload env name file)"
    by simp_all
  have "uploaded = takeWhile (\<lambda>(name, file). upload env name file = None)
                        (concat (map (promotion env ?label ?rid) results))
      \<and> raised = (case dropWhile (\<lambda>(name, file). upload env name file = None)
                             (concat (map (promotion env ?label ?rid) results)) of
                        [] \<Rightarrow> None
                      | (name, file) # _ \<Rightarrow> upload env name file)
      \<and> prefix uploaded (concat (map (promotion env ?label ?rid) results))
      \<and> (raised = None \<longrightarrow> uploaded = concat (map (promotion env ?label ?rid) results))
      \<and> ((\<forall>name file. upload env name file = None) \<longrightarrow> raised = None)"
    using 1 2 3 4 5 by blast
  then have "(uploaded = takeWhile (\<lambda>(name, file). upload env name file = None)
                        (concat (map (promotion env ?label ?rid) results))
      \<and> raised = (case dropWhile (\<lambda>(name, file). upload env name file = None)
                             (concat (map (promotion env ?label ?rid) results)) of
                        [] \<Rightarrow> None
                      | (name, file) # _ \<Rightarrow> upload env name file)
      \<and> prefix uploaded (concat (map (promotion env ?label ?rid) results))
      \<and> (raised = None \<longrightarrow> uploaded = concat (map (promotion env ?label ?rid) results))
      \<and> ((\<forall>name file. upload env name file = None) \<longrightarrow> raised = None))
      \<and> (\<forall>best_target::pystr. best_target = best_target)"
    by (rule conjI) (rule allI, rule refl)
  then show ?thesis
    unfolding save_best_target_eq fst_conv sl Let_def promotion_abs split_conv splitext_append .
qed

theorem save_best_target_promotes_witness:
  "fst (save_best_target example_environment 0
          [Result example_benchmark_a
             (Aggregated \<lparr>max_line_coverage_diff = Finite 0,
                          max_coverage_diff_sample = ascii ''out/01.c''\<rparr>),
           Result example_benchmark_a
             (Aggregated \<lparr>max_line_coverage_diff = Finite 5,
                          max_coverage_diff_sample = ascii ''out/02.c''\<rparr>),
           Result example_benchmark_a
             (Failure (ascii ''Exception while running experiment: boom''))]
          (ascii ''exp''))
   = ([(ascii ''llm_generated_targets/a/f-5.0-exp-1b4e28ba.c'', ascii ''out/02.c'')], None)
   \<and> fst (save_best_target example_refusing_environment 0
          [Result example_benchmark_b
             (Aggregated \<lparr>max_line_coverage_diff = Finite 5,
                          max_coverage_diff_sample = ascii ''out/03.c''\<rparr>),
           Result example_benchmark_a
             (Aggregated \<lparr>max_line_coverage_diff = Finite 5,
                          max_coverage_diff_sample = ascii ''out/02.c''\<rparr>),
           Result example_benchmark_b
             (Aggregated \<lparr>max_line_coverage_diff = Finite 5,
                          max_coverage_diff_sample = ascii ''out/04.c''\<rparr>)]
          (ascii ''exp''))
   = ([(ascii ''llm_generated_targets/b/g-5.0-exp-1b4e28ba.c'', ascii ''out/03.c'')],
      Some (StorageError ''upload failed''))"
proof -
  let ?results = "[Result example_benchmark_a
             (Aggregated \<lparr>max_line_coverage_diff = Finite 0,
                          max_coverage_diff_sample = ascii ''out/01.c''\<rparr>),
           Result example_benchmark_a
             (Aggregated \<lparr>max_line_coverage_diff = Finite 5,
                          max_coverage_diff_sample = ascii ''out/02.c''\<rparr>),
           Result example_benchmark_a
             (Failure (ascii ''Exception while running experiment: boom''))]"
  let ?refused = "[Result example_benchmark_b
             (Aggregated \<lparr>max_line_coverage_diff = Finite 5,
                          max_coverage_diff_sample = ascii ''out/03.c''\<rparr>),
           Result example_benchmark_a
             (Aggregated \<lparr>max_line_coverage_diff = Finite 5,
                          max_coverage_diff_sample = ascii ''out/02.c''\<rparr>),
           Result example_benchmark_b
             (Aggregated \<lparr>max_line_coverage_diff = Finite 5,
                          max_coverage_diff_sample = ascii ''out/04.c''\<rparr>)]"
  have ev: "snd (splitext (ascii ''out/02.c'')) = ascii ''.c''"
    "snd (splitext (ascii ''out/03.c'')) = ascii ''.c''"
    "snd (splitext (ascii ''out/04.c'')) = ascii ''.c''"
    by (simp_all add: splitext_def rfind_def ascii_def Let_def)
  have rid: "takeWhile (\<lambda>c. c \<noteq> 45) (uuid4 example_environment 0) = ascii ''1b4e28ba''"
    "takeWhile (\<lambda>c. c \<noteq> 45) (uuid4 example_refusing_environment 0) = ascii ''1b4e28ba''"
    by (simp_all add: example_defs ascii_def)
  have acc: "\<forall>name file. upload example_environment name file = None"
    by (simp add: example_defs)
  obtain uploaded raised where
    f: "fst (save_best_target example_environment 0 ?results (ascii ''exp'')) = (uploaded, raised)"
    by (cases "fst (save_best_target example_environment 0 ?results (ascii ''exp''))") blast
  from save_best_target_promotes
    [where env = example_environment and k = 0 and results = ?results and exp_name = "ascii ''exp''"]
    f acc
  have "uploaded = [(ascii ''llm_generated_targets/a/f-5.0-exp-1b4e28ba.c'', ascii ''out/02.c'')]
        \<and> raised = None"
    by (simp add: Let_def ev rid) (simp add: example_defs ascii_def)
  with f have accepted: "fst (save_best_target example_environment 0 ?results (ascii ''exp''))
    = ([(ascii ''llm_generated_targets/a/f-5.0-exp-1b4e28ba.c'', ascii ''out/02.c'')], None)"
    by simp
  obtain uploaded' raised' where
    g: "fst (save_best_target example_refusing_environment 0 ?refused (ascii ''exp''))
        = (uploaded', raised')"
    by (cases "fst (save_best_target example_refusing_environment 0 ?refused (ascii ''exp''))")
      blast
  from save_best_target_promotes
    [where env = example_refusing_environment and k = 0 and results = ?refused
       and exp_name = "ascii ''exp''"]
    g
  have "uploaded' = [(ascii ''llm_generated_targets/b/g-5.0-exp-1b4e28ba.c'', ascii ''out/03.c'')]
        \<and> raised' = Some (StorageError ''upload failed'')"
    by (simp add: Let_def ev rid) (simp add: example_defs ascii_def)
  with g have "fst (save_best_target example_refusing_environment 0 ?refused (ascii ''exp''))
    = ([(ascii ''llm_generated_targets/b/g-5.0-exp-1b4e28ba.c'', ascii ''out/03.c'')],
       Some (StorageError ''upload failed''))"
    by simp
  with accepted show ?thesis by (rule conjI)
qed

text \<open>
  The claim as stated fails when an upload raises: with a storage client that refuses
  \<open>out/02.c\<close>, the second result, whose differential is 5 and whose file the client would
  store, is not uploaded.
\<close>

theorem save_best_target_raise_counterexample:
  "fst (save_best_target example_refusing_environment 0
          [Result example_benchmark_a
             (Aggregated \<lparr>max_line_coverage_diff = Finite 5,
                          max_coverage_diff_sample = ascii ''out/02.c''\<rparr>),
           Result example_benchmark_b
             (Aggregated \<lparr>max_line_coverage_diff = Finite 5,
                          max_coverage_diff_sample = ascii ''out/03.c''\<rparr>)]
          (ascii ''exp''))
   = ([], Some (StorageError ''upload failed''))
   \<and> upload example_refusing_environment
         (ascii ''llm_generated_targets/b/g-5.0-exp-1b4e28ba.c'') (ascii ''out/03.c'') = None"
  by (simp add: save_best_target_def save_name_of_def Let_def example_defs ascii_def)

text \<open>
  Claim C10. One invocation takes exactly one value from the generator, before the loop,
  and the name of every upload it makes ends in the first group of that one value followed
  by the extension; apart from that suffix the name is made of the project, the function
  name, the coverage differential and the run label, so two results of one invocation that
  agree on those and on the extension are uploaded under the same name.
\<close>

theorem save_best_target_one_suffix:
  "snd (save_best_target env k results exp_name) = Suc k
   \<and> (\<forall>(name, file) \<in> set (fst (fst (save_best_target env k results exp_name))).
        \<exists>r \<in> set results. \<exists>aggregated.
          result r = Aggregated aggregated
          \<and> file = max_coverage_diff_sample aggregated
          \<and> name = ascii ''llm_generated_targets/'' @ project (benchmark r) @ ascii ''/''
                   @ function_name (benchmark r) @ ascii ''-''
                   @ str_float env (max_line_coverage_diff aggregated) @ ascii ''-''
                   @ (if exp_name = [] then today env @ ascii ''-'' @ hostname env else exp_name)
                   @ ascii ''-'' @ takeWhile (\<lambda>c. c \<noteq> 45) (uuid4 env k)
                   @ snd (splitext (max_coverage_diff_sample aggregated)))"
proof (intro conjI ballI)
  show "snd (save_best_target env k results exp_name) = Suc k"
    by (simp add: save_best_target_eq)
next
  fix x
  assume x: "x \<in> set (fst (fst (save_best_target env k results exp_name)))"
  let ?label = "if exp_name = [] then today env @ ascii ''-'' @ hostname env else exp_name"
  let ?rid = "takeWhile (\<lambda>c. c \<noteq> 45) (uuid4 env k)"
  obtain uploaded raised where sl: "save_loop env ?label ?rid results [] = (uploaded, raised)"
    by (cases "save_loop env ?label ?rid results []") blast
  from save_loop_prefix [OF sl]
  have "prefix uploaded (concat (map (promotion env ?label ?rid) results))" by auto
  then have "set uploaded \<subseteq> set (concat (map (promotion env ?label ?rid) results))"
    by (rule set_mono_prefix)
  moreover from x sl have "x \<in> set uploaded" by (simp add: save_best_target_eq)
  ultimately obtain r where r: "r \<in> set results" and xr: "x \<in> set (promotion env ?label ?rid r)"
    by auto
  from xr obtain a where ra: "result r = Aggregated a"
    by (cases "result r") (auto simp: promotion_def)
  with xr have pos: "float_lt (Finite 0) (max_line_coverage_diff a)"
    by (auto simp: promotion_def split: if_splits)
  from xr ra pos
  have xeq: "x = (ascii ''llm_generated_targets/'' @ project (benchmark r) @ ascii ''/''
                   @ function_name (benchmark r) @ ascii ''-''
                   @ str_float env (max_line_coverage_diff a) @ ascii ''-''
                   @ ?label @ ascii ''-'' @ ?rid
                   @ snd (splitext (max_coverage_diff_sample a)),
              max_coverage_diff_sample a)"
    by (simp add: promotion_def)
  have "\<exists>r \<in> set results. \<exists>aggregated.
          result r = Aggregated aggregated
          \<and> snd x = max_coverage_diff_sample aggregated
          \<and> fst x = ascii ''llm_generated_targets/'' @ project (benchmark r) @ ascii ''/''
                   @ function_name (benchmark r) @ ascii ''-''
                   @ str_float env (max_line_coverage_diff aggregated) @ ascii ''-''
                   @ ?label @ ascii ''-'' @ ?rid
                   @ snd (splitext (max_coverage_diff_sample aggregated))"
  proof (intro bexI exI conjI)
    show "result r = Aggregated a" by (rule ra)
    show "snd x = max_coverage_diff_sample a" by (simp only: xeq snd_conv)
    show "fst x = ascii ''llm_generated_targets/'' @ project (benchmark r) @ ascii ''/''
                   @ function_name (benchmark r) @ ascii ''-''
                   @ str_float env (max_line_coverage_diff a) @ ascii ''-''
                   @ ?label @ ascii ''-'' @ ?rid
                   @ snd (splitext (max_coverage_diff_sample a))"
      by (simp only: xeq fst_conv)
    show "r \<in> set results" by (rule r)
  qed
  then show "case x of (name, file) \<Rightarrow>
        \<exists>r \<in> set results. \<exists>aggregated.
          result r = Aggregated aggregated
          \<and> file = max_coverage_diff_sample aggregated
          \<and> name = ascii ''llm_generated_targets/'' @ project (benchmark r) @ ascii ''/''
                   @ function_name (benchmark r) @ ascii ''-''
                   @ str_float env (max_line_coverage_diff aggregated) @ ascii ''-''
                   @ (if exp_name = [] then today env @ ascii ''-'' @ hostname env else exp_name)
                   @ ascii ''-'' @ takeWhile (\<lambda>c. c \<noteq> 45) (uuid4 env k)
                   @ snd (splitext (max_coverage_diff_sample aggregated))"
    by (simp only: case_prod_beta)
qed

theorem save_best_target_one_suffix_witness:
  "snd (save_best_target example_environment 7
          [Result example_benchmark_a
             (Aggregated \<lparr>max_line_coverage_diff = Finite 5,
                          max_coverage_diff_sample = ascii ''out/02.c''\<rparr>),
           Result example_benchmark_a
             (Aggregated \<lparr>max_line_coverage_diff = Finite 5,
                          max_coverage_diff_sample = ascii ''out/03.c''\<rparr>)]
          []) = 8
   \<and> fst (fst (save_best_target example_environment 7
          [Result example_benchmark_a
             (Aggregated \<lparr>max_line_coverage_diff = Finite 5,
                          max_coverage_diff_sample = ascii ''out/02.c''\<rparr>),
           Result example_benchmark_a
             (Aggregated \<lparr>max_line_coverage_diff = Finite 5,
                          max_coverage_diff_sample = ascii ''out/03.c''\<rparr>)]
          []))
     = [(ascii ''llm_generated_targets/a/f-5.0-2024-05-01-host-1b4e28ba.c'', ascii ''out/02.c''),
        (ascii ''llm_generated_targets/a/f-5.0-2024-05-01-host-1b4e28ba.c'', ascii ''out/03.c'')]"
proof -
  let ?results = "[Result example_benchmark_a
             (Aggregated \<lparr>max_line_coverage_diff = Finite 5,
                          max_coverage_diff_sample = ascii ''out/02.c''\<rparr>),
           Result example_benchmark_a
             (Aggregated \<lparr>max_line_coverage_diff = Finite 5,
                          max_coverage_diff_sample = ascii ''out/03.c''\<rparr>)]"
  have ev: "snd (splitext (ascii ''out/02.c'')) = ascii ''.c''"
          "snd (splitext (ascii ''out/03.c'')) = ascii ''.c''"
    by (simp_all add: splitext_def rfind_def ascii_def Let_def)
  have rid: "takeWhile (\<lambda>c. c \<noteq> 45) (uuid4 example_environment 7) = ascii ''1b4e28ba''"
    by (simp add: example_defs ascii_def)
  have acc: "\<And>name file. upload example_environment name file = None"
    by (simp add: example_defs)
  have up: "fst (fst (save_best_target example_environment 7 ?results []))
     = [(ascii ''llm_generated_targets/a/f-5.0-2024-05-01-host-1b4e28ba.c'', ascii ''out/02.c''),
        (ascii ''llm_generated_targets/a/f-5.0-2024-05-01-host-1b4e28ba.c'', ascii ''out/03.c'')]"
    by (simp add: save_best_target_eq save_name_of_def Let_def ev rid acc)
       (simp add: example_defs ascii_def)
  from save_best_target_one_suffix
    [where env = example_environment and k = 7 and results = ?results and exp_name = "[]"] up
  show ?thesis by simp
qed

end
